theory Spec2Isabelle
  imports Main
begin

section \<open>Go's regexp, as far as kernelVersionRegex uses it\<close>

text \<open>
  The pattern of \<^verbatim>\<open>installedkernelcheck.go\<close> is
  \<^verbatim>\<open>^(\d+\.\d+\.\d+)([.\-][a-zA-Z0-9_.\-]*)?$\<close>.
  Its syntax tree uses the operators below (the names are those of Go's
  \<^verbatim>\<open>regexp/syntax\<close>). A character class is the list of its members, a
  literal character a class of one member.
\<close>

datatype rx =
    BeginText
  | EndText
  | CharClass "char list"
  | Concat rx rx
  | Plus rx
  | Star rx
  | Quest rx
  | Capture nat rx

text \<open>
  A thread of the matcher: the offset reached in the text, the text still to be read,
  and the capture groups closed so far.
\<close>

datatype thread = Thread (pos: nat) (rest: string) (caps: "nat \<Rightarrow> string option")

fun rank :: "rx \<Rightarrow> nat" where
  "rank BeginText = 0"
| "rank EndText = 0"
| "rank (CharClass cs) = 0"
| "rank (Concat a b) = Suc (rank a + rank b)"
| "rank (Plus a) = Suc (Suc (rank a))"
| "rank (Star a) = Suc (rank a)"
| "rank (Quest a) = Suc (rank a)"
| "rank (Capture n a) = Suc (rank a)"

text \<open>
  All the ways a pattern matches at a thread, in the order a backtracking matcher tries
  them: Go's regexp returns the leftmost match and, among those, the one a
  backtracking engine finds first. The repetitions are greedy. An iteration of
  \<open>Star\<close> that reads nothing is not repeated.
\<close>

function rmatch :: "rx \<Rightarrow> thread \<Rightarrow> thread list" where
  "rmatch BeginText t = (if pos t = 0 then [t] else [])"
| "rmatch EndText t = (if rest t = [] then [t] else [])"
| "rmatch (CharClass cs) t =
     (case rest t of
        [] \<Rightarrow> []
      | c # s \<Rightarrow> if c \<in> set cs then [Thread (Suc (pos t)) s (caps t)] else [])"
| "rmatch (Concat a b) t = concat (map (rmatch b) (rmatch a t))"
| "rmatch (Plus a) t = concat (map (rmatch (Star a)) (rmatch a t))"
| "rmatch (Star a) t =
     concat (map (\<lambda>u. if length (rest u) < length (rest t) then rmatch (Star a) u else [])
                 (rmatch a t)) @ [t]"
| "rmatch (Quest a) t = rmatch a t @ [t]"
| "rmatch (Capture n a) t =
     map (\<lambda>u. Thread (pos u) (rest u) ((caps u)(n \<mapsto> take (pos u - pos t) (rest t))))
         (rmatch a t)"
  by pat_completeness auto
termination
  by (relation "inv_image (less_than <*lex*> less_than) (\<lambda>(r, t). (rank r, length (rest t)))")
     auto

text \<open>
  \<^verbatim>\<open>FindStringSubmatch\<close>: the first start offset at which the pattern matches,
  and there the first thread. The result holds the text of the whole match and of the
  groups 1 to \<open>n\<close>; a group that took no part in the match is the empty string.
\<close>

fun find_from :: "rx \<Rightarrow> nat \<Rightarrow> string \<Rightarrow> thread option" where
  "find_from re i s =
     (case rmatch (Capture 0 re) (Thread i s (\<lambda>_. None)) of
        u # _ \<Rightarrow> Some u
      | [] \<Rightarrow> (case s of [] \<Rightarrow> None | _ # s' \<Rightarrow> find_from re (Suc i) s'))"

fun group_text :: "thread \<Rightarrow> nat \<Rightarrow> string" where
  "group_text u k = (case caps u k of None \<Rightarrow> [] | Some w \<Rightarrow> w)"

definition FindStringSubmatch :: "rx \<Rightarrow> nat \<Rightarrow> string \<Rightarrow> string list option" where
  "FindStringSubmatch re n s =
     (case find_from re 0 s of
        None \<Rightarrow> None
      | Some u \<Rightarrow> Some (map (group_text u) [0..<Suc n]))"

definition digit :: "char list" where
  "digit = ''0123456789''"

definition word_dot_dash :: "char list" where
  "word_dot_dash =
     ''abcdefghijklmnopqrstuvwxyz'' @ ''ABCDEFGHIJKLMNOPQRSTUVWXYZ'' @ ''0123456789'' @ ''_.-''"

definition majorMinorPatchRx :: rx where
  "majorMinorPatchRx =
     Concat (Concat (Concat (Concat (Plus (CharClass digit)) (CharClass ''.''))
                            (Plus (CharClass digit)))
                    (CharClass ''.''))
            (Plus (CharClass digit))"

definition suffixRx :: rx where
  "suffixRx = Concat (CharClass ''.-'') (Star (CharClass word_dot_dash))"

definition kernelVersionRegex :: rx where
  "kernelVersionRegex =
     Concat (Concat (Concat BeginText (Capture 1 majorMinorPatchRx))
                    (Quest (Capture 2 suffixRx)))
            EndText"

text \<open>
  The classes of the pattern hold ASCII characters only. Go matches runes, the model
  matches bytes: a byte of a rune outside ASCII is in no class, so the same texts are
  accepted and the groups of an accepted text are the same.
\<close>

section \<open>versioncompare.TolerantVersion\<close>

text \<open>
  Modelled from the spec: package \<^verbatim>\<open>versioncompare\<close> (the type
  \<^verbatim>\<open>TolerantVersion\<close>, \<^verbatim>\<open>New\<close> and \<^verbatim>\<open>Compare\<close>) is
  imported by \<^verbatim>\<open>installedkernelcheck.go\<close> and is not among the sources. The spec:
  a TolerantVersion is an ordered sequence of non-negative integer segments.
\<close>

datatype TolerantVersion = TolerantVersion (segments: "nat list")

definition digit_value :: "char \<Rightarrow> nat" where
  "digit_value c = of_char c - 48"

definition decimal :: "string \<Rightarrow> nat" where
  "decimal ds = foldl (\<lambda>n c. 10 * n + digit_value c) 0 ds"

text \<open>
  Modelled from the spec: the segments are extracted from the leading dot-separated
  numeric run of the version string; what follows the run is discarded.
\<close>

function leading_segments :: "string \<Rightarrow> nat list" where
  "leading_segments s =
     (if takeWhile (\<lambda>c. c \<in> set digit) s = [] then []
      else decimal (takeWhile (\<lambda>c. c \<in> set digit) s) #
        (case dropWhile (\<lambda>c. c \<in> set digit) s of
           [] \<Rightarrow> []
         | c # r \<Rightarrow> if c = CHR ''.'' then leading_segments r else []))"
  by pat_completeness auto
termination
proof (relation "measure length")
  show "wf (measure length)" by simp
next
  fix s :: string and c r
  assume "dropWhile (\<lambda>c. c \<in> set digit) s = c # r"
  then have "length (c # r) \<le> length s"
    using length_dropWhile_le [of "\<lambda>c. c \<in> set digit" s] by simp
  then show "(r, s) \<in> measure length" by simp
qed

definition New :: "string \<Rightarrow> TolerantVersion" where
  "New versionString = TolerantVersion (leading_segments versionString)"

text \<open>
  Modelled from the spec: walk both segment sequences position by position; a missing
  segment is 0; integers are compared numerically; the first unequal position decides;
  when all positions up to the longer length are equal, the versions are equal. The
  result is negative, zero or positive, as the caller's test \<^verbatim>\<open>Compare(..) < 0\<close>
  expects.
\<close>

definition segment_order :: "nat \<Rightarrow> nat \<Rightarrow> int \<Rightarrow> int" where
  "segment_order x y later = (if x < y then - 1 else if y < x then 1 else later)"

fun compare_segments :: "nat list \<Rightarrow> nat list \<Rightarrow> int" where
  "compare_segments [] [] = 0"
| "compare_segments (x # xs) [] = segment_order x 0 (compare_segments xs [])"
| "compare_segments [] (y # ys) = segment_order 0 y (compare_segments [] ys)"
| "compare_segments (x # xs) (y # ys) = segment_order x y (compare_segments xs ys)"

definition Compare :: "TolerantVersion \<Rightarrow> TolerantVersion \<Rightarrow> int" where
  "Compare v other = compare_segments (segments v) (segments other)"

section \<open>Errors and the capabilities of the host\<close>

text \<open>
  A Go error of this code is either the error an external call returned, or the result
  of \<^verbatim>\<open>fmt.Errorf\<close>: the formatted message and, under \<^verbatim>\<open>%w\<close>, the
  error it wraps. The message is kept up to the place of \<^verbatim>\<open>%w\<close>.
\<close>

datatype 'e error = External 'e | Errorf string "'e error option"

text \<open>
  The calls that leave the package: \<^verbatim>\<open>os.ReadDir\<close> (the names of the entries),
  \<^verbatim>\<open>file.IsDirEmpty\<close>, \<^verbatim>\<open>shell.Execute\<close> (stdout, stderr, error) and
  \<^verbatim>\<open>filepath.Join\<close>.
\<close>

record 'e host =
  os_ReadDir :: "string \<Rightarrow> 'e + string list"
  file_IsDirEmpty :: "string \<Rightarrow> 'e + bool"
  shell_Execute :: "string \<Rightarrow> string list \<Rightarrow> string \<times> string \<times> 'e option"
  filepath_Join :: "string \<Rightarrow> string \<Rightarrow> string"

record Chroot =
  RootDir :: string

text \<open>
  \<^verbatim>\<open>strings.TrimSpace\<close> removes the leading and the trailing runes that
  \<^verbatim>\<open>unicode.IsSpace\<close> accepts. A string is its bytes, so the runes are given
  by their UTF-8 encodings.
\<close>

definition white_space :: "string list" where
  "white_space =
     [[CHR 0x09], [CHR 0x0A], [CHR 0x0B], [CHR 0x0C], [CHR 0x0D], [CHR 0x20],
      [CHR 0xC2, CHR 0x85], [CHR 0xC2, CHR 0xA0], [CHR 0xE1, CHR 0x9A, CHR 0x80],
      [CHR 0xE2, CHR 0x80, CHR 0x80], [CHR 0xE2, CHR 0x80, CHR 0x81],
      [CHR 0xE2, CHR 0x80, CHR 0x82], [CHR 0xE2, CHR 0x80, CHR 0x83],
      [CHR 0xE2, CHR 0x80, CHR 0x84], [CHR 0xE2, CHR 0x80, CHR 0x85],
      [CHR 0xE2, CHR 0x80, CHR 0x86], [CHR 0xE2, CHR 0x80, CHR 0x87],
      [CHR 0xE2, CHR 0x80, CHR 0x88], [CHR 0xE2, CHR 0x80, CHR 0x89],
      [CHR 0xE2, CHR 0x80, CHR 0x8A], [CHR 0xE2, CHR 0x80, CHR 0xA8],
      [CHR 0xE2, CHR 0x80, CHR 0xA9], [CHR 0xE2, CHR 0x80, CHR 0xAF],
      [CHR 0xE2, CHR 0x81, CHR 0x9F], [CHR 0xE3, CHR 0x80, CHR 0x80]]"

function trim_prefixes :: "string list \<Rightarrow> string \<Rightarrow> string" where
  "trim_prefixes ws s =
     (case find (\<lambda>w. w \<noteq> [] \<and> take (length w) s = w) ws of
        None \<Rightarrow> s
      | Some w \<Rightarrow> trim_prefixes ws (drop (length w) s))"
  by pat_completeness auto
termination
proof (relation "measure (\<lambda>(ws, s). length s)")
  show "wf (measure (\<lambda>(ws, s). length s))" by simp
next
  fix ws :: "string list" and s w :: string
  assume "find (\<lambda>w. w \<noteq> [] \<and> take (length w) s = w) ws = Some w"
  then have w: "w \<noteq> []" "take (length w) s = w"
    by (auto simp: find_Some_iff)
  then have "s \<noteq> []" by auto
  with w show "((ws, drop (length w) s), (ws, s)) \<in> measure (\<lambda>(ws, s). length s)"
    by simp
qed

definition TrimSpace :: "string \<Rightarrow> string" where
  "TrimSpace s = rev (trim_prefixes (map rev white_space) (rev (trim_prefixes white_space s)))"

section \<open>installedkernelcheck.go\<close>

definition parseKernelVersion :: "string \<Rightarrow> 'e error + TolerantVersion" where
  "parseKernelVersion versionString =
     (case FindStringSubmatch kernelVersionRegex 2 versionString of
        None \<Rightarrow> Inl (Errorf (''failed to parse kernel version ('' @ versionString @ '')'') None)
      | Some match \<Rightarrow> Inr (New (match ! 1)))"

definition GetBuildHostKernelVersion :: "'e host \<Rightarrow> 'e error + TolerantVersion" where
  "GetBuildHostKernelVersion h =
     (case shell_Execute h ''uname'' [''-r''] of
        (stdout, _, Some err) \<Rightarrow>
          Inl (Errorf (''failed to get kernel version using uname:'' @ [CHR 0x0A])
                 (Some (External err)))
      | (stdout, _, None) \<Rightarrow> parseKernelVersion (TrimSpace stdout))"

fun filterKernelDirs ::
  "'e host \<Rightarrow> string \<Rightarrow> string list \<Rightarrow> string list \<Rightarrow> 'e error + string list" where
  "filterKernelDirs h kernelParentPath [] filteredKernelDirs = Inr filteredKernelDirs"
| "filterKernelDirs h kernelParentPath (kernelDir # kernelDirs) filteredKernelDirs =
     (case file_IsDirEmpty h (filepath_Join h kernelParentPath kernelDir) of
        Inl err \<Rightarrow>
          Inl (Errorf (''failed to check if directory ('' @
                         filepath_Join h kernelParentPath kernelDir @ '') is empty:'' @
                         [CHR 0x0A])
                 (Some (External err)))
      | Inr is_empty \<Rightarrow>
          if \<not> is_empty
          then filterKernelDirs h kernelParentPath kernelDirs (filteredKernelDirs @ [kernelDir])
          else filterKernelDirs h kernelParentPath kernelDirs filteredKernelDirs)"

definition GetInstalledKernelStringVersions :: "'e host \<Rightarrow> string \<Rightarrow> 'e error + string list" where
  "GetInstalledKernelStringVersions h rootfs =
     (case os_ReadDir h (filepath_Join h rootfs ''/lib/modules'') of
        Inl err \<Rightarrow>
          Inl (Errorf (''failed to enumerate kernels under ('' @
                         filepath_Join h rootfs ''/lib/modules'' @ ''):'' @ [CHR 0x0A])
                 (Some (External err)))
      | Inr kernelDirs \<Rightarrow>
          filterKernelDirs h (filepath_Join h rootfs ''/lib/modules'') kernelDirs [])"

fun parseVersions ::
  "string list \<Rightarrow> TolerantVersion list \<Rightarrow> 'e error + TolerantVersion list" where
  "parseVersions [] versions = Inr versions"
| "parseVersions (versionString # versionStrings) versions =
     (case parseKernelVersion versionString of
        Inl err \<Rightarrow> Inl err
      | Inr version \<Rightarrow> parseVersions versionStrings (versions @ [version]))"

definition GetInstalledKernelVersions ::
  "'e host \<Rightarrow> string \<Rightarrow> 'e error + TolerantVersion list" where
  "GetInstalledKernelVersions h rootfs =
     (case GetInstalledKernelStringVersions h rootfs of
        Inl err \<Rightarrow>
          Inl (Errorf (''failed to get kernel version using uname:'' @ [CHR 0x0A]) (Some err))
      | Inr versionStrings \<Rightarrow> parseVersions versionStrings [])"

fun scanOldest :: "TolerantVersion \<Rightarrow> TolerantVersion list \<Rightarrow> TolerantVersion" where
  "scanOldest oldestVersion [] = oldestVersion"
| "scanOldest oldestVersion (version # versions) =
     scanOldest (if Compare version oldestVersion < 0 then version else oldestVersion) versions"

definition GetOldestInstalledKernelVersion ::
  "'e host \<Rightarrow> string \<Rightarrow> 'e error + TolerantVersion" where
  "GetOldestInstalledKernelVersion h rootfs =
     (case GetInstalledKernelVersions h rootfs of
        Inl err \<Rightarrow> Inl err
      | Inr versions \<Rightarrow>
          if length versions \<le> 0 then Inl (Errorf ''no installed kernels found in image'' None)
          else Inr (scanOldest (versions ! 0) versions))"

definition checkForInstalledKernel :: "'e host \<Rightarrow> Chroot \<Rightarrow> 'e error option" where
  "checkForInstalledKernel h imageChroot =
     (case GetInstalledKernelStringVersions h (RootDir imageChroot) of
        Inl err \<Rightarrow> Some err
      | Inr kernels \<Rightarrow>
          if length kernels \<le> 0 then Some (Errorf ''no installed kernel found'' None)
          else None)"

section \<open>The error kinds of the spec, as the values the code returns\<close>

definition ParseError :: "string \<Rightarrow> 'e error" where
  "ParseError versionString =
     Errorf (''failed to parse kernel version ('' @ versionString @ '')'') None"

definition IOError_enumerate :: "string \<Rightarrow> 'e \<Rightarrow> 'e error" where
  "IOError_enumerate kernelParentPath err =
     Errorf (''failed to enumerate kernels under ('' @ kernelParentPath @ ''):'' @ [CHR 0x0A])
       (Some (External err))"

definition IOError_emptiness :: "string \<Rightarrow> 'e \<Rightarrow> 'e error" where
  "IOError_emptiness kernelPath err =
     Errorf (''failed to check if directory ('' @ kernelPath @ '') is empty:'' @ [CHR 0x0A])
       (Some (External err))"

definition EmptyInventoryError :: "'e error" where
  "EmptyInventoryError = Errorf ''no installed kernels found in image'' None"

definition NoKernelInstalledError :: "'e error" where
  "NoKernelInstalledError = Errorf ''no installed kernel found'' None"

definition HostQueryError :: "'e \<Rightarrow> 'e error" where
  "HostQueryError err =
     Errorf (''failed to get kernel version using uname:'' @ [CHR 0x0A]) (Some (External err))"

text \<open>An error that wraps the error of an external call.\<close>

fun wraps_external :: "'e error \<Rightarrow> bool" where
  "wraps_external (Errorf msg (Some (External err))) = True"
| "wraps_external e = False"

section \<open>The vocabulary of the statements\<close>

text \<open>
  A pattern without groups and anchors recognises a set of texts when its threads are
  the ways of reading one of these texts from the front of the input.
\<close>

definition recognises :: "rx \<Rightarrow> string set \<Rightarrow> bool" where
  "recognises r L \<longleftrightarrow>
     (\<forall>i s m. set (rmatch r (Thread i s m)) =
        {Thread (i + length w) s' m | w s'. s = w @ s' \<and> w \<in> L})"

definition conc :: "string set \<Rightarrow> string set \<Rightarrow> string set" where
  "conc A B = {u @ v | u v. u \<in> A \<and> v \<in> B}"

text \<open>A segment is a non-empty run of decimal digits.\<close>

definition numeric :: "string \<Rightarrow> bool" where
  "numeric w \<longleftrightarrow> w \<noteq> [] \<and> list_all (\<lambda>c. c \<in> set digit) w"

text \<open>What may follow the third segment: nothing, or a separator and then letters,
  digits, dots, dashes and underscores.\<close>

definition trailing :: "string \<Rightarrow> bool" where
  "trailing suf =
     (case suf of [] \<Rightarrow> True
      | c # r \<Rightarrow> c \<in> set ''.-'' \<and> list_all (\<lambda>c. c \<in> set word_dot_dash) r)"

definition no_digit_ahead :: "string \<Rightarrow> bool" where
  "no_digit_ahead r = (case r of [] \<Rightarrow> True | x # _ \<Rightarrow> x \<notin> set digit)"

definition majorMinorPatch_texts :: "string set" where
  "majorMinorPatch_texts =
     {a @ ''.'' @ b @ ''.'' @ c | a b c. numeric a \<and> numeric b \<and> numeric c}"

definition suffix_texts :: "string set" where
  "suffix_texts = {w. w \<noteq> [] \<and> trailing w}"

text \<open>The segment of a version at a position; a missing segment is 0.\<close>

definition segment_at :: "nat list \<Rightarrow> nat \<Rightarrow> nat" where
  "segment_at xs i = (if i < length xs then xs ! i else 0)"

section \<open>The grammar in the words of the spec\<close>

text \<open>
  The spec's grammar of a version string: one or more dot-separated non-negative integer
  segments, optionally followed by a separator (\<open>.\<close> or \<open>-\<close>) and a suffix of letters,
  digits, dots, dashes and underscores.
\<close>

definition spec_pattern :: rx where
  "spec_pattern =
     Concat (Concat (Concat BeginText
        (Capture 1 (Concat (Plus (CharClass digit))
                           (Star (Concat (CharClass ''.'') (Plus (CharClass digit)))))))
        (Quest (Capture 2 suffixRx)))
        EndText"

definition spec_accepts :: "string \<Rightarrow> bool" where
  "spec_accepts s \<longleftrightarrow> FindStringSubmatch spec_pattern 2 s \<noteq> None"

definition starts_with_integer_segment :: "string \<Rightarrow> bool" where
  "starts_with_integer_segment s \<longleftrightarrow> takeWhile (\<lambda>c. c \<in> set digit) s \<noteq> []"

text \<open>
  What the code accepts: three runs of digits with dots between them, then nothing, or a
  separator and a suffix.
\<close>

definition three_segment_text :: "string \<Rightarrow> bool" where
  "three_segment_text s \<longleftrightarrow>
     (\<exists>a b c suf. s = a @ ''.'' @ b @ ''.'' @ c @ suf \<and>
        numeric a \<and> numeric b \<and> numeric c \<and> trailing suf)"

section \<open>A host for the examples\<close>

text \<open>
  A deterministic host: the image is mounted at \<^verbatim>\<open>/img\<close>; \<open>entries\<close> are the
  names under \<^verbatim>\<open>/img/lib/modules\<close>, \<open>empty_dirs\<close> those that are empty
  directories, \<open>unreadable\<close> those whose emptiness cannot be read, and \<open>uname\<close> is
  what \<^verbatim>\<open>uname -r\<close> gives.
\<close>

definition fake_host ::
  "string list \<Rightarrow> string list \<Rightarrow> string list \<Rightarrow> string \<times> string \<times> string option \<Rightarrow> string host"
where
  "fake_host entries empty_dirs unreadable uname =
     \<lparr> os_ReadDir = (\<lambda>p. if p = ''/img/lib/modules'' then Inr entries
                          else Inl ''no such file or directory''),
       file_IsDirEmpty = (\<lambda>p.
         if p \<in> set (map (\<lambda>d. ''/img/lib/modules/'' @ d) unreadable) then Inl ''not a directory''
         else Inr (p \<in> set (map (\<lambda>d. ''/img/lib/modules/'' @ d) empty_dirs))),
       shell_Execute = (\<lambda>program args. uname),
       filepath_Join = (\<lambda>a b. if take 1 b = ''/'' then a @ b else a @ ''/'' @ b) \<rparr>"

fun is_HostQueryError :: "'e error \<Rightarrow> bool" where
  "is_HostQueryError (Errorf msg (Some (External err))) =
     (msg = ''failed to get kernel version using uname:'' @ [CHR 0x0A])"
| "is_HostQueryError e = False"

section \<open>The pattern on the example strings\<close>

lemma match_fedora:
  "FindStringSubmatch kernelVersionRegex 2 ''6.11.6-200.fc40.x86_64'' =
     Some [''6.11.6-200.fc40.x86_64'', ''6.11.6'', ''-200.fc40.x86_64'']"
  by code_simp

lemma match_azl2:
  "FindStringSubmatch kernelVersionRegex 2 ''5.15.153.1-2.cm2'' =
     Some [''5.15.153.1-2.cm2'', ''5.15.153'', ''.1-2.cm2'']"
  by code_simp

lemma match_azl3:
  "FindStringSubmatch kernelVersionRegex 2 ''6.6.47.1-1.azl3'' =
     Some [''6.6.47.1-1.azl3'', ''6.6.47'', ''.1-1.azl3'']"
  by code_simp

lemma match_ubuntu:
  "FindStringSubmatch kernelVersionRegex 2 ''6.8.0-48-generic'' =
     Some [''6.8.0-48-generic'', ''6.8.0'', ''-48-generic'']"
  by code_simp

lemma match_empty: "FindStringSubmatch kernelVersionRegex 2 '''' = None"
  by code_simp

lemma match_fc40: "FindStringSubmatch kernelVersionRegex 2 ''fc40'' = None"
  by code_simp

lemma New_examples:
  "New ''6.11.6'' = TolerantVersion [6, 11, 6]"
  "New ''5.15.153'' = TolerantVersion [5, 15, 153]"
  "New ''6.6.47'' = TolerantVersion [6, 6, 47]"
  "New ''6.8.0'' = TolerantVersion [6, 8, 0]"
  by code_simp+

section \<open>What the matcher reads\<close>

declare rmatch.simps(5,6) [simp del]
declare leading_segments.simps [simp del]

lemma star_class_Nil:
  "rmatch (Star (CharClass cs)) (Thread i [] m) = [Thread i [] m]"
  by (simp add: rmatch.simps(6))

lemma star_class_Cons:
  "rmatch (Star (CharClass cs)) (Thread i (c # s) m) =
     (if c \<in> set cs then rmatch (Star (CharClass cs)) (Thread (Suc i) s m) @ [Thread i (c # s) m]
      else [Thread i (c # s) m])"
  by (subst rmatch.simps(6)) simp

lemma star_class_mem:
  "u \<in> set (rmatch (Star (CharClass cs)) (Thread i s m)) \<longleftrightarrow>
     (\<exists>w s'. s = w @ s' \<and> set w \<subseteq> set cs \<and> u = Thread (i + length w) s' m)"
proof (induction s arbitrary: i)
  case Nil
  show ?case by (simp add: star_class_Nil)
next
  case (Cons c s)
  show ?case
  proof
    assume "u \<in> set (rmatch (Star (CharClass cs)) (Thread i (c # s) m))"
    then have "(c \<in> set cs \<and> u \<in> set (rmatch (Star (CharClass cs)) (Thread (Suc i) s m)))
                 \<or> u = Thread i (c # s) m"
      by (auto simp: star_class_Cons split: if_splits)
    then show "\<exists>w s'. c # s = w @ s' \<and> set w \<subseteq> set cs \<and> u = Thread (i + length w) s' m"
    proof
      assume a: "c \<in> set cs \<and> u \<in> set (rmatch (Star (CharClass cs)) (Thread (Suc i) s m))"
      then obtain w s' where w: "s = w @ s'" "set w \<subseteq> set cs" "u = Thread (Suc i + length w) s' m"
        using Cons.IH [of "Suc i"] by blast
      have "c # s = (c # w) @ s' \<and> set (c # w) \<subseteq> set cs \<and> u = Thread (i + length (c # w)) s' m"
        using a w by simp
      then show ?thesis by blast
    next
      assume "u = Thread i (c # s) m"
      then have "c # s = [] @ (c # s) \<and> set ([]::string) \<subseteq> set cs
                   \<and> u = Thread (i + length ([]::string)) (c # s) m"
        by simp
      then show ?thesis by blast
    qed
  next
    assume "\<exists>w s'. c # s = w @ s' \<and> set w \<subseteq> set cs \<and> u = Thread (i + length w) s' m"
    then obtain w s' where w: "c # s = w @ s'" "set w \<subseteq> set cs" "u = Thread (i + length w) s' m"
      by blast
    show "u \<in> set (rmatch (Star (CharClass cs)) (Thread i (c # s) m))"
    proof (cases w)
      case Nil
      with w have "u = Thread i (c # s) m" by simp
      then show ?thesis by (simp add: star_class_Cons)
    next
      case (Cons d w')
      with w have c: "c \<in> set cs" and "s = w' @ s'" "set w' \<subseteq> set cs"
        "u = Thread (Suc i + length w') s' m"
        by simp_all
      then have "u \<in> set (rmatch (Star (CharClass cs)) (Thread (Suc i) s m))"
        using Cons.IH [of "Suc i"] by blast
      with c show ?thesis by (simp add: star_class_Cons)
    qed
  qed
qed

lemma star_class_set:
  "set (rmatch (Star (CharClass cs)) (Thread i s m)) =
     {Thread (i + length w) s' m | w s'. s = w @ s' \<and> set w \<subseteq> set cs}"
proof (rule set_eqI)
  fix u
  show "u \<in> set (rmatch (Star (CharClass cs)) (Thread i s m)) \<longleftrightarrow>
        u \<in> {Thread (i + length w) s' m | w s'. s = w @ s' \<and> set w \<subseteq> set cs}"
    unfolding star_class_mem by blast
qed

lemma recognises_Star_class:
  "recognises (Star (CharClass cs)) {w. set w \<subseteq> set cs}"
  by (simp add: recognises_def star_class_set)

lemma recognises_CharClass:
  "recognises (CharClass cs) {[c] | c. c \<in> set cs}"
  unfolding recognises_def
proof (intro allI)
  fix i s m
  show "set (rmatch (CharClass cs) (Thread i s m)) =
          {Thread (i + length w) s' m | w s'. s = w @ s' \<and> w \<in> {[c] | c. c \<in> set cs}}"
    by (cases s) auto
qed

lemma recognises_Concat:
  assumes "recognises a A" and "recognises b B"
  shows "recognises (Concat a b) {u @ v | u v. u \<in> A \<and> v \<in> B}"
  unfolding recognises_def
proof (intro allI set_eqI iffI)
  fix i s m t
  assume "t \<in> set (rmatch (Concat a b) (Thread i s m))"
  then obtain u where u: "u \<in> set (rmatch a (Thread i s m))" "t \<in> set (rmatch b u)"
    by auto
  from u(1) assms(1) obtain w s' where w: "u = Thread (i + length w) s' m" "s = w @ s'" "w \<in> A"
    unfolding recognises_def by blast
  from u(2) w(1) assms(2) obtain v s'' where
    v: "t = Thread (i + length w + length v) s'' m" "s' = v @ s''" "v \<in> B"
    unfolding recognises_def by blast
  from w v have "t = Thread (i + length (w @ v)) s'' m \<and> s = (w @ v) @ s'' \<and> w \<in> A \<and> v \<in> B"
    by (simp add: add.assoc)
  then show "t \<in> {Thread (i + length w) s' m | w s'. s = w @ s' \<and> w \<in> {u @ v | u v. u \<in> A \<and> v \<in> B}}"
    by blast
next
  fix i s m t
  assume "t \<in> {Thread (i + length w) s' m | w s'. s = w @ s' \<and> w \<in> {u @ v | u v. u \<in> A \<and> v \<in> B}}"
  then obtain u v s' where t: "t = Thread (i + length (u @ v)) s' m" "s = (u @ v) @ s'" "u \<in> A" "v \<in> B"
    by blast
  have "Thread (i + length u) (v @ s') m \<in> set (rmatch a (Thread i s m))"
    using assms(1) t(2,3) unfolding recognises_def by auto
  moreover have "t \<in> set (rmatch b (Thread (i + length u) (v @ s') m))"
    using assms(2) t(1,4) unfolding recognises_def by (auto simp: add.assoc)
  ultimately show "t \<in> set (rmatch (Concat a b) (Thread i s m))"
    by auto
qed

lemma recognises_Plus_class:
  "recognises (Plus (CharClass cs)) {w. w \<noteq> [] \<and> set w \<subseteq> set cs}"
proof -
  have plus: "rmatch (Plus (CharClass cs)) t = rmatch (Concat (CharClass cs) (Star (CharClass cs))) t"
    for t
    by (simp add: rmatch.simps(5))
  have "{u @ v | u v. u \<in> {[c] | c. c \<in> set cs} \<and> v \<in> {w. set w \<subseteq> set cs}}
          = {w. w \<noteq> [] \<and> set w \<subseteq> set cs}" (is "?L = ?R")
  proof (rule set_eqI, rule iffI)
    fix w assume "w \<in> ?L" then show "w \<in> ?R" by auto
  next
    fix w assume "w \<in> ?R"
    then obtain c v where "w = [c] @ v" "c \<in> set cs" "set v \<subseteq> set cs" by (cases w) auto
    then show "w \<in> ?L" by blast
  qed
  with recognises_Concat [OF recognises_CharClass recognises_Star_class, of cs cs]
  have "recognises (Concat (CharClass cs) (Star (CharClass cs))) ?R"
    by (simp only:)
  then show ?thesis
    unfolding recognises_def plus .
qed

declare find_from.simps [simp del]

lemma recognises_Concat_conc:
  "recognises a A \<Longrightarrow> recognises b B \<Longrightarrow> recognises (Concat a b) (conc A B)"
  unfolding conc_def by (rule recognises_Concat)

lemma numeric_set: "{w. w \<noteq> [] \<and> set w \<subseteq> set digit} = {w. numeric w}"
  by (auto simp: numeric_def list_all_iff)

lemma conc_dot: "conc A {[c] | c. c \<in> set ''.''} = {u @ ''.'' | u. u \<in> A}"
  by (auto simp: conc_def)

lemma majorMinorPatch_lang:
  "conc (conc (conc (conc {w. numeric w} {[c] | c. c \<in> set ''.''}) {w. numeric w})
              {[c] | c. c \<in> set ''.''}) {w. numeric w} = majorMinorPatch_texts"
proof (rule set_eqI, rule iffI)
  fix w
  assume "w \<in> conc (conc (conc (conc {w. numeric w} {[c] | c. c \<in> set ''.''}) {w. numeric w})
              {[c] | c. c \<in> set ''.''}) {w. numeric w}"
  then obtain x c where 1: "w = x @ c" "numeric c"
    "x \<in> conc (conc (conc {w. numeric w} {[c] | c. c \<in> set ''.''}) {w. numeric w})
              {[c] | c. c \<in> set ''.''}"
    unfolding conc_def [of _ "{w. numeric w}"] by blast
  from 1(3) obtain y where 2: "x = y @ ''.''"
    "y \<in> conc (conc {w. numeric w} {[c] | c. c \<in> set ''.''}) {w. numeric w}"
    unfolding conc_dot by blast
  from 2(2) obtain z b where 3: "y = z @ b" "numeric b"
    "z \<in> conc {w. numeric w} {[c] | c. c \<in> set ''.''}"
    unfolding conc_def [of _ "{w. numeric w}"] by blast
  from 3(3) obtain a where 4: "z = a @ ''.''" "numeric a"
    unfolding conc_dot by blast
  from 1 2 3 4 have "w = a @ ''.'' @ b @ ''.'' @ c \<and> numeric a \<and> numeric b \<and> numeric c"
    by simp
  then show "w \<in> majorMinorPatch_texts"
    unfolding majorMinorPatch_texts_def by blast
next
  fix w
  assume "w \<in> majorMinorPatch_texts"
  then obtain a b c where w: "w = a @ ''.'' @ b @ ''.'' @ c" "numeric a" "numeric b" "numeric c"
    unfolding majorMinorPatch_texts_def by blast
  have "a @ ''.'' \<in> conc {w. numeric w} {[c] | c. c \<in> set ''.''}"
    unfolding conc_dot using w(2) by blast
  then have "(a @ ''.'') @ b \<in> conc (conc {w. numeric w} {[c] | c. c \<in> set ''.''}) {w. numeric w}"
    unfolding conc_def [of _ "{w. numeric w}"] using w(3) by blast
  then have "((a @ ''.'') @ b) @ ''.'' \<in>
      conc (conc (conc {w. numeric w} {[c] | c. c \<in> set ''.''}) {w. numeric w})
           {[c] | c. c \<in> set ''.''}"
    unfolding conc_dot by blast
  then have "(((a @ ''.'') @ b) @ ''.'') @ c \<in>
      conc (conc (conc (conc {w. numeric w} {[c] | c. c \<in> set ''.''}) {w. numeric w})
           {[c] | c. c \<in> set ''.''}) {w. numeric w}"
    unfolding conc_def [of _ "{w. numeric w}"] using w(4) by blast
  with w(1) show "w \<in> conc (conc (conc (conc {w. numeric w} {[c] | c. c \<in> set ''.''}) {w. numeric w})
              {[c] | c. c \<in> set ''.''}) {w. numeric w}"
    by simp
qed

lemma recognises_majorMinorPatch: "recognises majorMinorPatchRx majorMinorPatch_texts"
proof -
  have d: "recognises (Plus (CharClass digit)) {w. numeric w}"
    using recognises_Plus_class [of digit] by (simp only: numeric_set)
  have dot: "recognises (CharClass ''.'') {[c] | c. c \<in> set ''.''}"
    by (rule recognises_CharClass)
  have "recognises majorMinorPatchRx
     (conc (conc (conc (conc {w. numeric w} {[c] | c. c \<in> set ''.''}) {w. numeric w})
              {[c] | c. c \<in> set ''.''}) {w. numeric w})"
    unfolding majorMinorPatchRx_def
    by (intro recognises_Concat_conc d dot)
  then show ?thesis by (simp only: majorMinorPatch_lang)
qed

lemma suffix_lang:
  "conc {[c] | c. c \<in> set ''.-''} {w. set w \<subseteq> set word_dot_dash} = suffix_texts"
proof (rule set_eqI, rule iffI)
  fix w
  assume "w \<in> conc {[c] | c. c \<in> set ''.-''} {w. set w \<subseteq> set word_dot_dash}"
  then obtain c r where "w = c # r" "c \<in> set ''.-''" "set r \<subseteq> set word_dot_dash"
    unfolding conc_def by auto
  then show "w \<in> suffix_texts"
    by (simp add: suffix_texts_def trailing_def list_all_iff subset_iff)
next
  fix w
  assume "w \<in> suffix_texts"
  then obtain c r where "w = [c] @ r" "c \<in> set ''.-''" "set r \<subseteq> set word_dot_dash"
    by (cases w) (auto simp: suffix_texts_def trailing_def list_all_iff)
  then show "w \<in> conc {[c] | c. c \<in> set ''.-''} {w. set w \<subseteq> set word_dot_dash}"
    unfolding conc_def by blast
qed

lemma recognises_suffix: "recognises suffixRx suffix_texts"
proof -
  have "recognises suffixRx (conc {[c] | c. c \<in> set ''.-''} {w. set w \<subseteq> set word_dot_dash})"
    unfolding suffixRx_def
    by (intro recognises_Concat_conc recognises_CharClass recognises_Star_class)
  then show ?thesis by (simp only: suffix_lang)
qed

lemma capture_mem:
  assumes "recognises g L"
  shows "u \<in> set (rmatch (Capture n g) (Thread i s m)) \<longleftrightarrow>
     (\<exists>w r. s = w @ r \<and> w \<in> L \<and> u = Thread (i + length w) r (m(n \<mapsto> w)))"
proof
  assume "u \<in> set (rmatch (Capture n g) (Thread i s m))"
  then obtain t where t: "t \<in> set (rmatch g (Thread i s m))"
    "u = Thread (pos t) (rest t) ((caps t)(n \<mapsto> take (pos t - i) s))"
    by auto
  from t(1) assms obtain w r where w: "s = w @ r" "w \<in> L" "t = Thread (i + length w) r m"
    unfolding recognises_def by blast
  from t(2) w have "u = Thread (i + length w) r (m(n \<mapsto> w))" by simp
  with w show "\<exists>w r. s = w @ r \<and> w \<in> L \<and> u = Thread (i + length w) r (m(n \<mapsto> w))"
    by blast
next
  assume "\<exists>w r. s = w @ r \<and> w \<in> L \<and> u = Thread (i + length w) r (m(n \<mapsto> w))"
  then obtain w r where w: "s = w @ r" "w \<in> L" "u = Thread (i + length w) r (m(n \<mapsto> w))"
    by blast
  then have "Thread (i + length w) r m \<in> set (rmatch g (Thread i s m))"
    using assms unfolding recognises_def by blast
  then have "Thread (i + length w) r (m(n \<mapsto> take (i + length w - i) s))
          \<in> set (rmatch (Capture n g) (Thread i s m))"
    by (auto simp: image_iff intro!: bexI [of _ "Thread (i + length w) r m"])
  with w show "u \<in> set (rmatch (Capture n g) (Thread i s m))" by simp
qed

text \<open>The threads of the whole pattern: the text is one of the first group followed by
  nothing or by one of the second group.\<close>

lemma kernelVersionRegex_struct:
  "u \<in> set (rmatch kernelVersionRegex (Thread i s m)) \<longleftrightarrow>
     i = 0 \<and> rest u = [] \<and>
     (\<exists>u1. u1 \<in> set (rmatch (Capture 1 majorMinorPatchRx) (Thread i s m)) \<and>
        (u \<in> set (rmatch (Capture 2 suffixRx) u1) \<or> u = u1))"
  unfolding kernelVersionRegex_def
  by (auto simp del: rmatch.simps(8) split: if_splits)

lemma kernelVersionRegex_mem:
  "u \<in> set (rmatch kernelVersionRegex (Thread i s m)) \<longleftrightarrow>
     i = 0 \<and>
     (\<exists>w1 w2. s = w1 @ w2 \<and> w1 \<in> majorMinorPatch_texts \<and>
        (w2 = [] \<and> u = Thread (length s) [] (m(1 \<mapsto> w1)) \<or>
         w2 \<in> suffix_texts \<and> u = Thread (length s) [] (m(1 \<mapsto> w1, 2 \<mapsto> w2))))"
  (is "?lhs \<longleftrightarrow> ?rhs")
proof
  assume ?lhs
  then obtain u1 where
    i: "i = 0" and
    u1: "u1 \<in> set (rmatch (Capture 1 majorMinorPatchRx) (Thread i s m))" and
    u2: "u \<in> set (rmatch (Capture 2 suffixRx) u1) \<or> u = u1" and
    u: "rest u = []"
    unfolding kernelVersionRegex_struct by blast
  from u1 obtain w1 r where w1: "s = w1 @ r" "w1 \<in> majorMinorPatch_texts"
    "u1 = Thread (i + length w1) r (m(1 \<mapsto> w1))"
    unfolding capture_mem [OF recognises_majorMinorPatch] by blast
  from u2 show ?rhs
  proof
    assume "u \<in> set (rmatch (Capture 2 suffixRx) u1)"
    then obtain w2 r2 where w2: "r = w2 @ r2" "w2 \<in> suffix_texts"
      "u = Thread (i + length w1 + length w2) r2 (m(1 \<mapsto> w1, 2 \<mapsto> w2))"
      unfolding w1(3) capture_mem [OF recognises_suffix] by blast
    with u have "r2 = []" by simp
    with w1 w2 i have "s = w1 @ w2 \<and> w1 \<in> majorMinorPatch_texts \<and> w2 \<in> suffix_texts \<and>
       u = Thread (length s) [] (m(1 \<mapsto> w1, 2 \<mapsto> w2))"
      by simp
    with i show ?rhs by blast
  next
    assume "u = u1"
    with u w1 have "r = []" by simp
    with w1 i \<open>u = u1\<close> have "s = w1 @ [] \<and> w1 \<in> majorMinorPatch_texts \<and>
       u = Thread (length s) [] (m(1 \<mapsto> w1))"
      by simp
    with i show ?rhs by blast
  qed
next
  assume ?rhs
  then obtain w1 w2 where i: "i = 0" and w: "s = w1 @ w2" "w1 \<in> majorMinorPatch_texts" and
    alt: "w2 = [] \<and> u = Thread (length s) [] (m(1 \<mapsto> w1)) \<or>
         w2 \<in> suffix_texts \<and> u = Thread (length s) [] (m(1 \<mapsto> w1, 2 \<mapsto> w2))"
    by blast
  define u1 where "u1 = Thread (i + length w1) w2 (m(1 \<mapsto> w1))"
  have u1: "u1 \<in> set (rmatch (Capture 1 majorMinorPatchRx) (Thread i s m))"
    unfolding capture_mem [OF recognises_majorMinorPatch] u1_def using w by blast
  have "rest u = [] \<and> (u \<in> set (rmatch (Capture 2 suffixRx) u1) \<or> u = u1)"
    using alt
  proof
    assume "w2 = [] \<and> u = Thread (length s) [] (m(1 \<mapsto> w1))"
    with w i show ?thesis by (simp add: u1_def)
  next
    assume a: "w2 \<in> suffix_texts \<and> u = Thread (length s) [] (m(1 \<mapsto> w1, 2 \<mapsto> w2))"
    then have "u = Thread (i + length w1 + length w2) [] (m(1 \<mapsto> w1, 2 \<mapsto> w2))"
      using w i by simp
    with a have "u \<in> set (rmatch (Capture 2 suffixRx) u1)"
      unfolding u1_def capture_mem [OF recognises_suffix] by simp
    with a show ?thesis by simp
  qed
  with u1 i show ?lhs
    unfolding kernelVersionRegex_struct by blast
qed

lemma kernel_capture0_mem:
  assumes "u \<in> set (rmatch (Capture 0 kernelVersionRegex) (Thread i s m))"
  shows "i = 0 \<and> (\<exists>w1 w2. s = w1 @ w2 \<and> w1 \<in> majorMinorPatch_texts \<and> trailing w2 \<and>
           caps u 1 = Some w1)"
proof -
  from assms obtain t where t: "t \<in> set (rmatch kernelVersionRegex (Thread i s m))"
    "caps u = (caps t)(0 \<mapsto> take (pos t - i) s)"
    by auto
  from t(1) obtain w1 w2 where w: "i = 0" "s = w1 @ w2" "w1 \<in> majorMinorPatch_texts"
    "w2 = [] \<and> t = Thread (length s) [] (m(1 \<mapsto> w1)) \<or>
     w2 \<in> suffix_texts \<and> t = Thread (length s) [] (m(1 \<mapsto> w1, 2 \<mapsto> w2))"
    unfolding kernelVersionRegex_mem by blast
  from w(4) have "trailing w2 \<and> caps t 1 = Some w1"
    by (auto simp: trailing_def suffix_texts_def)
  with t(2) w show ?thesis by auto
qed

lemma kernel_capture0_nonempty:
  assumes "s = w1 @ w2" "w1 \<in> majorMinorPatch_texts" "trailing w2"
  shows "rmatch (Capture 0 kernelVersionRegex) (Thread 0 s m) \<noteq> []"
proof -
  have "w2 = [] \<or> w2 \<in> suffix_texts"
    using assms(3) by (simp add: suffix_texts_def)
  then have "\<exists>u. u \<in> set (rmatch kernelVersionRegex (Thread 0 s m))"
    unfolding kernelVersionRegex_mem using assms(1,2) by blast
  then have "rmatch kernelVersionRegex (Thread 0 s m) \<noteq> []"
    by auto
  then show ?thesis by simp
qed

lemma find_from_kernel_offset:
  "0 < i \<Longrightarrow> find_from kernelVersionRegex i s = None"
proof (induction s arbitrary: i)
  case Nil
  have "rmatch (Capture 0 kernelVersionRegex) (Thread i [] (\<lambda>_. None)) = []"
  proof (cases "rmatch (Capture 0 kernelVersionRegex) (Thread i [] (\<lambda>_. None))")
    case (Cons u us)
    then have "u \<in> set (rmatch (Capture 0 kernelVersionRegex) (Thread i [] (\<lambda>_. None)))" by simp
    from kernel_capture0_mem [OF this] Nil show ?thesis by simp
  qed simp
  then show ?case by (simp add: find_from.simps)
next
  case (Cons c s)
  have "rmatch (Capture 0 kernelVersionRegex) (Thread i (c # s) (\<lambda>_. None)) = []"
  proof (cases "rmatch (Capture 0 kernelVersionRegex) (Thread i (c # s) (\<lambda>_. None))")
    case (Cons u us)
    then have "u \<in> set (rmatch (Capture 0 kernelVersionRegex) (Thread i (c # s) (\<lambda>_. None)))"
      by simp
    from kernel_capture0_mem [OF this] Cons.prems show ?thesis by simp
  qed simp
  with Cons.IH [of "Suc i"] show ?case by (simp add: find_from.simps)
qed

lemma find_from_kernel_Some:
  assumes "find_from kernelVersionRegex 0 s = Some u"
  shows "\<exists>w1 w2. s = w1 @ w2 \<and> w1 \<in> majorMinorPatch_texts \<and> trailing w2 \<and> caps u 1 = Some w1"
proof (cases "rmatch (Capture 0 kernelVersionRegex) (Thread 0 s (\<lambda>_. None))")
  case Nil
  with assms have False
    by (cases s) (simp_all add: find_from.simps [of _ 0] find_from_kernel_offset)
  then show ?thesis ..
next
  case (Cons t ts)
  with assms have "u = t" by (simp add: find_from.simps [of _ 0])
  with Cons have "u \<in> set (rmatch (Capture 0 kernelVersionRegex) (Thread 0 s (\<lambda>_. None)))"
    by simp
  from kernel_capture0_mem [OF this] show ?thesis by simp
qed

lemma find_from_kernel_ex:
  assumes "s = w1 @ w2" "w1 \<in> majorMinorPatch_texts" "trailing w2"
  shows "\<exists>u. find_from kernelVersionRegex 0 s = Some u"
  using kernel_capture0_nonempty [OF assms, of "\<lambda>_. None"]
  by (cases "rmatch (Capture 0 kernelVersionRegex) (Thread 0 s (\<lambda>_. None))")
     (simp_all add: find_from.simps [of _ 0])

lemma FindStringSubmatch_kernel_Some:
  assumes "FindStringSubmatch kernelVersionRegex 2 s = Some match"
  shows "\<exists>w1 w2. s = w1 @ w2 \<and> w1 \<in> majorMinorPatch_texts \<and> trailing w2 \<and> match ! 1 = w1"
proof -
  from assms obtain u where u: "find_from kernelVersionRegex 0 s = Some u"
    "match = map (group_text u) [0..<Suc 2]"
    by (auto simp: FindStringSubmatch_def split: option.splits)
  have "[0..<Suc 2] = [0, 1, 2]" by (simp add: upt_rec)
  with u(2) have "match ! 1 = group_text u 1" by simp
  with find_from_kernel_Some [OF u(1)] show ?thesis by auto
qed

lemma FindStringSubmatch_kernel_ex:
  assumes "s = w1 @ w2" "w1 \<in> majorMinorPatch_texts" "trailing w2"
  shows "\<exists>match. FindStringSubmatch kernelVersionRegex 2 s = Some match"
  using find_from_kernel_ex [OF assms] by (auto simp: FindStringSubmatch_def)

lemma numeric_split:
  assumes "numeric a" "no_digit_ahead r"
  shows "takeWhile (\<lambda>c. c \<in> set digit) (a @ r) = a"
    and "dropWhile (\<lambda>c. c \<in> set digit) (a @ r) = r"
proof -
  have a: "\<And>x. x \<in> set a \<Longrightarrow> x \<in> set digit"
    using assms(1) by (simp add: numeric_def list_all_iff)
  have r: "takeWhile (\<lambda>c. c \<in> set digit) r = []" "dropWhile (\<lambda>c. c \<in> set digit) r = r"
    using assms(2) by (cases r; simp add: no_digit_ahead_def)+
  show "takeWhile (\<lambda>c. c \<in> set digit) (a @ r) = a"
    using a r by (simp add: takeWhile_append2)
  show "dropWhile (\<lambda>c. c \<in> set digit) (a @ r) = r"
    using a r by (simp add: dropWhile_append2)
qed

lemma trailing_no_digit: "trailing suf \<Longrightarrow> no_digit_ahead suf"
  by (cases suf) (auto simp: trailing_def no_digit_ahead_def digit_def)

lemma dot_no_digit: "no_digit_ahead (CHR ''.'' # r)"
  by (simp add: no_digit_ahead_def digit_def)

lemma three_segments_unique:
  assumes "a @ ''.'' @ b @ ''.'' @ c @ suf = a' @ ''.'' @ b' @ ''.'' @ c' @ suf'"
    and "numeric a" "numeric b" "numeric c" "no_digit_ahead suf"
    and "numeric a'" "numeric b'" "numeric c'" "no_digit_ahead suf'"
  shows "a = a' \<and> b = b' \<and> c = c' \<and> suf = suf'"
proof -
  let ?d = "\<lambda>c. c \<in> set digit"
  have "takeWhile ?d (a @ (CHR ''.'' # b @ ''.'' @ c @ suf)) = a"
       "takeWhile ?d (a' @ (CHR ''.'' # b' @ ''.'' @ c' @ suf')) = a'"
    using assms by (simp_all only: numeric_split dot_no_digit)
  with assms(1) have a: "a = a'" by simp
  with assms(1) have 1: "b @ ''.'' @ c @ suf = b' @ ''.'' @ c' @ suf'" by simp
  have "takeWhile ?d (b @ (CHR ''.'' # c @ suf)) = b"
       "takeWhile ?d (b' @ (CHR ''.'' # c' @ suf')) = b'"
    using assms by (simp_all only: numeric_split dot_no_digit)
  with 1 have b: "b = b'" by simp
  with 1 have 2: "c @ suf = c' @ suf'" by simp
  have "takeWhile ?d (c @ suf) = c" "takeWhile ?d (c' @ suf') = c'"
    using assms by (simp_all only: numeric_split)
  with 2 have c: "c = c'" by simp
  with 2 a b show ?thesis by simp
qed

lemma leading_segments_dot:
  assumes "numeric a"
  shows "leading_segments (a @ CHR ''.'' # r) = decimal a # leading_segments r"
proof -
  have "a \<noteq> []" using assms by (simp add: numeric_def)
  then show ?thesis
    by (subst leading_segments.simps)
       (simp add: numeric_split [OF assms dot_no_digit])
qed

lemma leading_segments_last:
  assumes "numeric c"
  shows "leading_segments c = [decimal c]"
proof -
  have "no_digit_ahead []" by (simp add: no_digit_ahead_def)
  from numeric_split [OF assms this] have
    tw: "takeWhile (\<lambda>x. x \<in> set digit) c = c" and dw: "dropWhile (\<lambda>x. x \<in> set digit) c = []"
    by simp_all
  have ne: "c \<noteq> []" using assms by (simp add: numeric_def)
  show ?thesis
    by (subst leading_segments.simps) (simp only: tw dw ne if_False list.case)
qed

lemma New_three_segments:
  assumes "numeric a" "numeric b" "numeric c"
  shows "New (a @ ''.'' @ b @ ''.'' @ c) = TolerantVersion [decimal a, decimal b, decimal c]"
  using assms
  by (simp add: New_def leading_segments_dot leading_segments_last)

text \<open>What parseKernelVersion accepts, and what it returns then.\<close>

lemma parseKernelVersion_Inr:
  "parseKernelVersion s = Inr v \<longleftrightarrow>
     (\<exists>a b c suf. s = a @ ''.'' @ b @ ''.'' @ c @ suf \<and> numeric a \<and> numeric b \<and> numeric c \<and>
        trailing suf \<and> v = TolerantVersion [decimal a, decimal b, decimal c])"
  (is "?lhs \<longleftrightarrow> ?rhs")
proof
  assume ?lhs
  then obtain match where m: "FindStringSubmatch kernelVersionRegex 2 s = Some match"
    "v = New (match ! 1)"
    by (auto simp: parseKernelVersion_def split: option.splits)
  from FindStringSubmatch_kernel_Some [OF m(1)] obtain w1 w2 where
    w: "s = w1 @ w2" "w1 \<in> majorMinorPatch_texts" "trailing w2" "match ! 1 = w1"
    by blast
  from w(2) obtain a b c where abc: "w1 = a @ ''.'' @ b @ ''.'' @ c"
    "numeric a" "numeric b" "numeric c"
    unfolding majorMinorPatch_texts_def by blast
  from m(2) w(4) abc have "v = TolerantVersion [decimal a, decimal b, decimal c]"
    by (simp only: New_three_segments)
  with w abc have "s = a @ ''.'' @ b @ ''.'' @ c @ w2 \<and> numeric a \<and> numeric b \<and> numeric c \<and>
        trailing w2 \<and> v = TolerantVersion [decimal a, decimal b, decimal c]"
    by simp
  then show ?rhs by blast
next
  assume ?rhs
  then obtain a b c suf where f: "s = a @ ''.'' @ b @ ''.'' @ c @ suf"
    "numeric a" "numeric b" "numeric c" "trailing suf"
    "v = TolerantVersion [decimal a, decimal b, decimal c]"
    by blast
  have "s = (a @ ''.'' @ b @ ''.'' @ c) @ suf" using f(1) by simp
  moreover have "a @ ''.'' @ b @ ''.'' @ c \<in> majorMinorPatch_texts"
    unfolding majorMinorPatch_texts_def using f by blast
  ultimately obtain match where m: "FindStringSubmatch kernelVersionRegex 2 s = Some match"
    using FindStringSubmatch_kernel_ex f(5) by blast
  from FindStringSubmatch_kernel_Some [OF m] obtain w1 w2 where
    w: "s = w1 @ w2" "w1 \<in> majorMinorPatch_texts" "trailing w2" "match ! 1 = w1"
    by blast
  from w(2) obtain a' b' c' where abc: "w1 = a' @ ''.'' @ b' @ ''.'' @ c'"
    "numeric a'" "numeric b'" "numeric c'"
    unfolding majorMinorPatch_texts_def by blast
  have "a @ ''.'' @ b @ ''.'' @ c @ suf = a' @ ''.'' @ b' @ ''.'' @ c' @ w2"
    using f(1) w(1) abc(1) by simp
  from three_segments_unique [OF this f(2-4) trailing_no_digit [OF f(5)] abc(2-4)
      trailing_no_digit [OF w(3)]]
  have "w1 = a @ ''.'' @ b @ ''.'' @ c" using abc(1) by simp
  with w(4) f have "New (match ! 1) = v" by (simp only: New_three_segments)
  with m show ?lhs by (simp add: parseKernelVersion_def)
qed

section \<open>The order of the versions\<close>

lemma segment_at_Nil [simp]: "segment_at [] i = 0"
  by (simp add: segment_at_def)

lemma segment_at_Cons_0 [simp]: "segment_at (x # xs) 0 = x"
  by (simp add: segment_at_def)

lemma segment_at_Cons_Suc [simp]: "segment_at (x # xs) (Suc i) = segment_at xs i"
  by (simp add: segment_at_def)

lemma compare_segments_swap: "compare_segments ys xs = - compare_segments xs ys"
  by (induction xs ys rule: compare_segments.induct) (simp_all add: segment_order_def)

lemma lex_Cons:
  "(\<exists>i. segment_at (x # xs) i < segment_at (y # ys) i \<and>
        (\<forall>j<i. segment_at (x # xs) j = segment_at (y # ys) j)) \<longleftrightarrow>
   x < y \<or> x = y \<and> (\<exists>i. segment_at xs i < segment_at ys i \<and>
        (\<forall>j<i. segment_at xs j = segment_at ys j))"
  (is "?lhs \<longleftrightarrow> ?rhs")
proof
  assume ?lhs
  then obtain i where i: "segment_at (x # xs) i < segment_at (y # ys) i"
    "\<forall>j<i. segment_at (x # xs) j = segment_at (y # ys) j" by blast
  show ?rhs
  proof (cases i)
    case 0
    with i show ?thesis by simp
  next
    case (Suc k)
    with i(2) have "x = y" by (metis segment_at_Cons_0 zero_less_Suc)
    moreover from i Suc have "segment_at xs k < segment_at ys k" by simp
    moreover have "\<forall>j<k. segment_at xs j = segment_at ys j"
    proof (intro allI impI)
      fix j assume "j < k"
      then have "Suc j < i" using Suc by simp
      with i(2) have "segment_at (x # xs) (Suc j) = segment_at (y # ys) (Suc j)" by blast
      then show "segment_at xs j = segment_at ys j" by simp
    qed
    ultimately show ?thesis by blast
  qed
next
  assume ?rhs
  then show ?lhs
  proof
    assume "x < y"
    then have "segment_at (x # xs) 0 < segment_at (y # ys) 0 \<and>
        (\<forall>j<0. segment_at (x # xs) j = segment_at (y # ys) j)" by simp
    then show ?lhs by blast
  next
    assume "x = y \<and> (\<exists>i. segment_at xs i < segment_at ys i \<and>
        (\<forall>j<i. segment_at xs j = segment_at ys j))"
    then obtain k where k: "x = y" "segment_at xs k < segment_at ys k"
      "\<forall>j<k. segment_at xs j = segment_at ys j" by blast
    have "\<forall>j<Suc k. segment_at (x # xs) j = segment_at (y # ys) j"
    proof (intro allI impI)
      fix j assume "j < Suc k"
      then show "segment_at (x # xs) j = segment_at (y # ys) j"
        using k(1,3) by (cases j) simp_all
    qed
    with k(2) have "segment_at (x # xs) (Suc k) < segment_at (y # ys) (Suc k) \<and>
        (\<forall>j<Suc k. segment_at (x # xs) j = segment_at (y # ys) j)" by simp
    then show ?lhs by blast
  qed
qed

lemma lex_Nil_right:
  "\<not> (\<exists>i. segment_at xs i < segment_at [] i \<and> (\<forall>j<i. segment_at xs j = segment_at [] j))"
  by simp

lemma lex_Nil_Cons:
  "(\<exists>i. segment_at [] i < segment_at (y # ys) i \<and>
        (\<forall>j<i. segment_at [] j = segment_at (y # ys) j)) \<longleftrightarrow>
   0 < y \<or> 0 = y \<and> (\<exists>i. segment_at [] i < segment_at ys i \<and>
        (\<forall>j<i. segment_at [] j = segment_at ys j))"
proof -
  have "segment_at [] = segment_at (0 # [])"
    by (rule ext) (simp add: segment_at_def nth_Cons')
  then show ?thesis using lex_Cons [of 0 "[]" y ys] by simp
qed

lemma compare_segments_less:
  "compare_segments xs ys < 0 \<longleftrightarrow>
     (\<exists>i. segment_at xs i < segment_at ys i \<and> (\<forall>j<i. segment_at xs j = segment_at ys j))"
proof (induction xs ys rule: compare_segments.induct)
  case 1
  show ?case by simp
next
  case (2 x xs)
  have "\<not> compare_segments xs [] < 0" using 2 by simp
  then have "\<not> compare_segments (x # xs) [] < 0" by (simp add: segment_order_def)
  then show ?case using lex_Nil_right [of "x # xs"] by blast
next
  case (3 y ys)
  have "compare_segments [] (y # ys) < 0 \<longleftrightarrow> 0 < y \<or> 0 = y \<and> compare_segments [] ys < 0"
    by (auto simp: segment_order_def)
  then show ?case unfolding 3 lex_Nil_Cons .
next
  case (4 x xs y ys)
  have "compare_segments (x # xs) (y # ys) < 0 \<longleftrightarrow> x < y \<or> x = y \<and> compare_segments xs ys < 0"
    by (auto simp: segment_order_def)
  then show ?case unfolding 4 lex_Cons .
qed

lemma compare_segments_greater:
  "0 < compare_segments xs ys \<longleftrightarrow>
     (\<exists>i. segment_at ys i < segment_at xs i \<and> (\<forall>j<i. segment_at xs j = segment_at ys j))"
proof -
  have "0 < compare_segments xs ys \<longleftrightarrow> compare_segments ys xs < 0"
    using compare_segments_swap [of xs ys] by simp
  also have "\<dots> \<longleftrightarrow> (\<exists>i. segment_at ys i < segment_at xs i \<and>
      (\<forall>j<i. segment_at ys j = segment_at xs j))"
    by (rule compare_segments_less)
  also have "\<dots> \<longleftrightarrow> (\<exists>i. segment_at ys i < segment_at xs i \<and>
      (\<forall>j<i. segment_at xs j = segment_at ys j))"
    by (metis (no_types))
  finally show ?thesis .
qed

lemma compare_segments_equal:
  "compare_segments xs ys = 0 \<longleftrightarrow> (\<forall>i. segment_at xs i = segment_at ys i)"
proof
  assume 0: "compare_segments xs ys = 0"
  show "\<forall>i. segment_at xs i = segment_at ys i"
  proof (rule ccontr)
    assume "\<not> (\<forall>i. segment_at xs i = segment_at ys i)"
    then have ex: "\<exists>i. segment_at xs i \<noteq> segment_at ys i" by blast
    define k where "k = (LEAST i. segment_at xs i \<noteq> segment_at ys i)"
    have k: "segment_at xs k \<noteq> segment_at ys k"
      unfolding k_def using ex by (rule LeastI_ex)
    have below: "\<forall>j<k. segment_at xs j = segment_at ys j"
      unfolding k_def using not_less_Least by blast
    from k have "segment_at xs k < segment_at ys k \<or> segment_at ys k < segment_at xs k"
      by auto
    with below have "compare_segments xs ys < 0 \<or> 0 < compare_segments xs ys"
      unfolding compare_segments_less compare_segments_greater by blast
    with 0 show False by simp
  qed
next
  assume eq: "\<forall>i. segment_at xs i = segment_at ys i"
  then have "\<not> compare_segments xs ys < 0" "\<not> 0 < compare_segments xs ys"
    unfolding compare_segments_less compare_segments_greater by simp_all
  then show "compare_segments xs ys = 0" by simp
qed

lemma compare_segments_range: "compare_segments xs ys \<in> {- 1, 0, 1}"
  by (induction xs ys rule: compare_segments.induct) (auto simp: segment_order_def)

lemma Compare_asym: "Compare a b < 0 \<Longrightarrow> \<not> Compare b a < 0"
  using compare_segments_swap [of "segments a" "segments b"] by (simp add: Compare_def)

lemma Compare_refl: "Compare a a = 0"
  by (simp add: Compare_def compare_segments_equal)

lemma Compare_less_not_less:
  assumes "Compare a b < 0" and "\<not> Compare c b < 0"
  shows "Compare a c < 0"
proof -
  let ?f = "segment_at (segments a)" and ?g = "segment_at (segments b)"
    and ?h = "segment_at (segments c)"
  from assms(1) obtain i where i: "?f i < ?g i" "\<forall>j<i. ?f j = ?g j"
    unfolding Compare_def compare_segments_less by blast
  from assms(2) have h: "\<And>k. (\<forall>j<k. ?h j = ?g j) \<Longrightarrow> ?g k \<le> ?h k"
    unfolding Compare_def compare_segments_less by (meson not_less)
  show ?thesis
  proof (cases "\<forall>j\<le>i. ?h j = ?g j")
    case True
    then have "?f i < ?h i \<and> (\<forall>j<i. ?f j = ?h j)"
      using i by simp
    then show ?thesis unfolding Compare_def compare_segments_less by blast
  next
    case False
    then have ex: "\<exists>j. ?h j \<noteq> ?g j" by blast
    define k where "k = (LEAST j. ?h j \<noteq> ?g j)"
    have k: "?h k \<noteq> ?g k" unfolding k_def using ex by (rule LeastI_ex)
    have below: "\<forall>j<k. ?h j = ?g j" unfolding k_def using not_less_Least by blast
    have "k \<le> i"
    proof (rule ccontr)
      assume "\<not> k \<le> i"
      then have "\<forall>j\<le>i. j < k" by simp
      with below have "\<forall>j\<le>i. ?h j = ?g j" by blast
      with False show False ..
    qed
    from h [OF below] k have gh: "?g k < ?h k" by simp
    have "?f k \<le> ?g k" using i \<open>k \<le> i\<close> by (cases "k = i") simp_all
    with gh have "?f k < ?h k" by simp
    moreover have "\<forall>j<k. ?f j = ?h j"
      using i(2) below \<open>k \<le> i\<close> by simp
    ultimately show ?thesis unfolding Compare_def compare_segments_less by blast
  qed
qed

lemma Compare_trans: "Compare a b < 0 \<Longrightarrow> Compare b c < 0 \<Longrightarrow> Compare a c < 0"
  using Compare_less_not_less [of a b c] Compare_asym [of b c] by blast

text \<open>The scan: the result is the candidate it started from, or an element of the list
  below the candidate and below all the elements before it; nothing is below the result.\<close>

lemma scanOldest_inv:
  "(\<forall>x\<in>set vs. \<not> Compare x (scanOldest c vs) < 0) \<and>
   \<not> Compare c (scanOldest c vs) < 0 \<and>
   (scanOldest c vs = c \<or>
    (\<exists>pre post. vs = pre @ scanOldest c vs # post \<and> Compare (scanOldest c vs) c < 0 \<and>
       (\<forall>x\<in>set pre. Compare (scanOldest c vs) x < 0)))"
proof (induction vs arbitrary: c)
  case Nil
  show ?case by (simp add: Compare_refl)
next
  case (Cons v vs)
  define c' where "c' = (if Compare v c < 0 then v else c)"
  define m where "m = scanOldest c' vs"
  have m: "scanOldest c (v # vs) = m" by (simp add: m_def c'_def)
  from Cons.IH [of c'] have
    ih1: "\<forall>x\<in>set vs. \<not> Compare x m < 0" and
    ih2: "\<not> Compare c' m < 0" and
    ih3: "m = c' \<or> (\<exists>pre post. vs = pre @ m # post \<and> Compare m c' < 0 \<and>
             (\<forall>x\<in>set pre. Compare m x < 0))"
    unfolding m_def by blast+
  have v: "\<not> Compare v m < 0"
  proof (cases "Compare v c < 0")
    case True
    with ih2 show ?thesis by (simp add: c'_def)
  next
    case False
    with ih2 have "\<not> Compare c m < 0" by (simp add: c'_def)
    with False show ?thesis using Compare_less_not_less [of v m c] by blast
  qed
  have c: "\<not> Compare c m < 0"
  proof (cases "Compare v c < 0")
    case True
    with v show ?thesis using Compare_trans [of v c m] by blast
  next
    case False
    with ih2 show ?thesis by (simp add: c'_def)
  qed
  have p: "m = c \<or> (\<exists>pre post. v # vs = pre @ m # post \<and> Compare m c < 0 \<and>
             (\<forall>x\<in>set pre. Compare m x < 0))"
    using ih3
  proof
    assume "m = c'"
    show ?thesis
    proof (cases "Compare v c < 0")
      case True
      with \<open>m = c'\<close> have "v # vs = [] @ m # vs \<and> Compare m c < 0 \<and>
             (\<forall>x\<in>set []. Compare m x < 0)" by (simp add: c'_def)
      then show ?thesis by blast
    next
      case False
      with \<open>m = c'\<close> show ?thesis by (simp add: c'_def)
    qed
  next
    assume "\<exists>pre post. vs = pre @ m # post \<and> Compare m c' < 0 \<and>
             (\<forall>x\<in>set pre. Compare m x < 0)"
    then obtain pre post where pp: "vs = pre @ m # post" "Compare m c' < 0"
      "\<forall>x\<in>set pre. Compare m x < 0" by blast
    have "Compare m v < 0 \<and> Compare m c < 0"
    proof (cases "Compare v c < 0")
      case True
      with pp(2) have "Compare m v < 0" by (simp add: c'_def)
      with True show ?thesis using Compare_trans [of m v c] by blast
    next
      case False
      with pp(2) have "Compare m c < 0" by (simp add: c'_def)
      with False show ?thesis using Compare_less_not_less [of m c v] by blast
    qed
    with pp have "v # vs = (v # pre) @ m # post \<and> Compare m c < 0 \<and>
             (\<forall>x\<in>set (v # pre). Compare m x < 0)" by simp
    then show ?thesis by blast
  qed
  from ih1 v c p show ?case unfolding m by simp
qed

section \<open>The loops\<close>

lemma filterKernelDirs_all:
  assumes "list_all (\<lambda>d. \<exists>b. file_IsDirEmpty h (filepath_Join h p d) = Inr b) ds"
  shows "filterKernelDirs h p ds acc =
     Inr (acc @ filter (\<lambda>d. file_IsDirEmpty h (filepath_Join h p d) = Inr False) ds)"
  using assms
proof (induction ds arbitrary: acc)
  case Nil
  show ?case by simp
next
  case (Cons d ds)
  from Cons.prems obtain b where b: "file_IsDirEmpty h (filepath_Join h p d) = Inr b"
    and rest: "list_all (\<lambda>d. \<exists>b. file_IsDirEmpty h (filepath_Join h p d) = Inr b) ds"
    by auto
  show ?case
    using b Cons.IH [OF rest] by (cases b) simp_all
qed

lemma filterKernelDirs_error:
  assumes "list_all (\<lambda>d. \<exists>b. file_IsDirEmpty h (filepath_Join h p d) = Inr b) pre"
    and "file_IsDirEmpty h (filepath_Join h p d) = Inl err"
  shows "filterKernelDirs h p (pre @ d # post) acc =
     Inl (IOError_emptiness (filepath_Join h p d) err)"
  using assms(1)
proof (induction pre arbitrary: acc)
  case Nil
  show ?case using assms(2) by (simp add: IOError_emptiness_def)
next
  case (Cons x pre)
  from Cons.prems obtain b where b: "file_IsDirEmpty h (filepath_Join h p x) = Inr b"
    and rest: "list_all (\<lambda>d. \<exists>b. file_IsDirEmpty h (filepath_Join h p d) = Inr b) pre"
    by auto
  show ?case
    using b Cons.IH [OF rest] by (cases b) simp_all
qed

lemma filterKernelDirs_Inl:
  "filterKernelDirs h p ds acc = Inl e \<Longrightarrow> wraps_external e"
proof (induction ds arbitrary: acc)
  case Nil
  then show ?case by simp
next
  case (Cons d ds)
  then show ?case
    by (cases "file_IsDirEmpty h (filepath_Join h p d)") (auto split: if_splits)
qed

lemma scanner_Inl:
  "GetInstalledKernelStringVersions h rootfs = Inl e \<Longrightarrow> wraps_external e"
  by (auto simp: GetInstalledKernelStringVersions_def split: sum.splits
        dest: filterKernelDirs_Inl)

lemma parseVersions_all:
  assumes "list_all2 (\<lambda>s v. parseKernelVersion s = (Inr v :: 'e error + TolerantVersion)) ss vs"
  shows "parseVersions ss acc = (Inr (acc @ vs) :: 'e error + TolerantVersion list)"
  using assms
proof (induction ss arbitrary: vs acc)
  case Nil
  then show ?case by simp
next
  case (Cons s ss)
  from Cons.prems obtain v vs' where v: "vs = v # vs'"
    "parseKernelVersion s = (Inr v :: 'e error + TolerantVersion)"
    "list_all2 (\<lambda>s v. parseKernelVersion s = (Inr v :: 'e error + TolerantVersion)) ss vs'"
    by (auto simp: list_all2_Cons1)
  show ?case using v(1,2) Cons.IH [OF v(3)] by simp
qed

lemma parseVersions_error:
  assumes "list_all (\<lambda>s. \<exists>v. parseKernelVersion s = (Inr v :: 'e error + TolerantVersion)) pre"
    and "parseKernelVersion s = (Inl e :: 'e error + TolerantVersion)"
  shows "parseVersions (pre @ s # post) acc = (Inl e :: 'e error + TolerantVersion list)"
  using assms(1)
proof (induction pre arbitrary: acc)
  case Nil
  show ?case using assms(2) by simp
next
  case (Cons x pre)
  from Cons.prems obtain v where v: "parseKernelVersion x = (Inr v :: 'e error + TolerantVersion)"
    and rest: "list_all (\<lambda>s. \<exists>v. parseKernelVersion s = (Inr v :: 'e error + TolerantVersion)) pre"
    by auto
  show ?case using v Cons.IH [OF rest] by simp
qed

lemma match_two_segments: "FindStringSubmatch kernelVersionRegex 2 ''6.11'' = None"
  by code_simp

lemma match_one_segment: "FindStringSubmatch kernelVersionRegex 2 ''6'' = None"
  by code_simp

lemma spec_accepts_two_segments: "spec_accepts ''6.11''"
  by code_simp

lemma starts_two_segments: "starts_with_integer_segment ''6.11''"
  by code_simp

section \<open>The example host, evaluated\<close>

lemma scenario_strings:
  "GetInstalledKernelStringVersions
     (fake_host [''5.15.153.1-2.cm2'', ''6.11.6-200.fc40.x86_64'', ''6.6.47.1-1.azl3'']
        [''6.6.47.1-1.azl3''] [] ([], [], None)) ''/img'' =
   Inr [''5.15.153.1-2.cm2'', ''6.11.6-200.fc40.x86_64'']"
  by code_simp

lemma scenario_versions:
  "GetInstalledKernelVersions
     (fake_host [''6.11.6-200.fc40.x86_64'', ''6.8.0-48-generic''] [] [] ([], [], None)) ''/img'' =
   Inr [TolerantVersion [6, 11, 6], TolerantVersion [6, 8, 0]]"
  by code_simp

lemma scenario_oldest:
  "GetOldestInstalledKernelVersion
     (fake_host [''5.15.153.1-2.cm2'', ''6.11.6-200.fc40.x86_64'', ''6.6.47.1-1.azl3'']
        [''6.6.47.1-1.azl3''] [] ([], [], None)) ''/img'' =
   Inr (TolerantVersion [5, 15, 153])"
  by code_simp

lemma trim_uname: "TrimSpace ('' 6.8.0-48-generic'' @ [CHR 0x0A]) = ''6.8.0-48-generic''"
  by code_simp

lemma trim_fc40: "TrimSpace (''fc40'' @ [CHR 0x0A]) = ''fc40''"
  by code_simp

lemma all_empty_filter:
  assumes "list_all (\<lambda>d. file_IsDirEmpty h (filepath_Join h p d) = Inr True) ds"
  shows "list_all (\<lambda>d. \<exists>b. file_IsDirEmpty h (filepath_Join h p d) = Inr b) ds"
    and "filter (\<lambda>d. file_IsDirEmpty h (filepath_Join h p d) = Inr False) ds = []"
  using assms by (induction ds) auto

lemma scenario_all_empty:
  "os_ReadDir (fake_host [''6.6.47.1-1.azl3''] [''6.6.47.1-1.azl3''] [] ([], [], None))
     ''/img/lib/modules'' = Inr [''6.6.47.1-1.azl3'']"
  "list_all (\<lambda>d. file_IsDirEmpty (fake_host [''6.6.47.1-1.azl3''] [''6.6.47.1-1.azl3''] [] ([], [], None))
        (filepath_Join (fake_host [''6.6.47.1-1.azl3''] [''6.6.47.1-1.azl3''] [] ([], [], None))
           ''/img/lib/modules'' d) = Inr True) [''6.6.47.1-1.azl3'']"
  by (auto simp: fake_host_def)

lemma scenario_join:
  "filepath_Join (fake_host entries empty_dirs unreadable uname) ''/img'' ''/lib/modules'' =
     ''/img/lib/modules''"
  "filepath_Join (fake_host entries empty_dirs unreadable uname) ''/other'' ''/lib/modules'' =
     ''/other/lib/modules''"
  by (auto simp: fake_host_def)

lemma scenario_mixed:
  "os_ReadDir (fake_host [''5.15.153.1-2.cm2'', ''6.11.6-200.fc40.x86_64'', ''6.6.47.1-1.azl3'']
        [''6.6.47.1-1.azl3''] [] ([], [], None)) ''/img/lib/modules'' =
     Inr [''5.15.153.1-2.cm2'', ''6.11.6-200.fc40.x86_64'', ''6.6.47.1-1.azl3'']"
  "list_all (\<lambda>d. \<exists>b. file_IsDirEmpty
        (fake_host [''5.15.153.1-2.cm2'', ''6.11.6-200.fc40.x86_64'', ''6.6.47.1-1.azl3'']
           [''6.6.47.1-1.azl3''] [] ([], [], None))
        (filepath_Join
           (fake_host [''5.15.153.1-2.cm2'', ''6.11.6-200.fc40.x86_64'', ''6.6.47.1-1.azl3'']
              [''6.6.47.1-1.azl3''] [] ([], [], None)) ''/img/lib/modules'' d) = Inr b)
     [''5.15.153.1-2.cm2'', ''6.11.6-200.fc40.x86_64'', ''6.6.47.1-1.azl3'']"
  "filter (\<lambda>d. file_IsDirEmpty
        (fake_host [''5.15.153.1-2.cm2'', ''6.11.6-200.fc40.x86_64'', ''6.6.47.1-1.azl3'']
           [''6.6.47.1-1.azl3''] [] ([], [], None))
        (filepath_Join
           (fake_host [''5.15.153.1-2.cm2'', ''6.11.6-200.fc40.x86_64'', ''6.6.47.1-1.azl3'']
              [''6.6.47.1-1.azl3''] [] ([], [], None)) ''/img/lib/modules'' d) = Inr False)
     [''5.15.153.1-2.cm2'', ''6.11.6-200.fc40.x86_64'', ''6.6.47.1-1.azl3''] =
   [''5.15.153.1-2.cm2'', ''6.11.6-200.fc40.x86_64'']"
  by (auto simp: fake_host_def)

lemma scenario_unlisted:
  "os_ReadDir (fake_host [] [] [] ([], [], None)) ''/other/lib/modules'' =
     Inl ''no such file or directory''"
  by (simp add: fake_host_def)

lemma scenario_unreadable:
  "os_ReadDir (fake_host [''6.8.0-48-generic'', ''README''] [] [''README''] ([], [], None))
     ''/img/lib/modules'' = Inr ([''6.8.0-48-generic''] @ ''README'' # [])"
  "list_all (\<lambda>d. \<exists>b. file_IsDirEmpty
        (fake_host [''6.8.0-48-generic'', ''README''] [] [''README''] ([], [], None))
        (filepath_Join (fake_host [''6.8.0-48-generic'', ''README''] [] [''README''] ([], [], None))
           ''/img/lib/modules'' d) = Inr b) [''6.8.0-48-generic'']"
  "file_IsDirEmpty (fake_host [''6.8.0-48-generic'', ''README''] [] [''README''] ([], [], None))
     (filepath_Join (fake_host [''6.8.0-48-generic'', ''README''] [] [''README''] ([], [], None))
        ''/img/lib/modules'' ''README'') = Inl ''not a directory''"
  "filepath_Join (fake_host [''6.8.0-48-generic'', ''README''] [] [''README''] ([], [], None))
        ''/img/lib/modules'' ''README'' = ''/img/lib/modules/README''"
  by (auto simp: fake_host_def)

lemma NoKernelInstalledError_not_wrapping: "\<not> wraps_external NoKernelInstalledError"
  by (simp add: NoKernelInstalledError_def)

lemma scenario_guard:
  "GetInstalledKernelStringVersions
     (fake_host [''not-a-kernel''] [] [] ([], [], None)) ''/img'' = Inr [''not-a-kernel'']"
  "GetInstalledKernelStringVersions
     (fake_host [''6.6.47.1-1.azl3''] [''6.6.47.1-1.azl3''] [] ([], [], None)) ''/img'' = Inr []"
  "GetInstalledKernelStringVersions (fake_host [] [] [] ([], [], None)) ''/other'' =
     Inl (IOError_enumerate ''/other/lib/modules'' ''no such file or directory'')"
  by code_simp+

lemma scenario_parse_list:
  "GetInstalledKernelStringVersions
     (fake_host [''6.11.6-200.fc40.x86_64'', ''6.8.0-48-generic''] [] [] ([], [], None)) ''/img'' =
   Inr [''6.11.6-200.fc40.x86_64'', ''6.8.0-48-generic'']"
  "GetInstalledKernelStringVersions
     (fake_host [''6.11.6-200.fc40.x86_64'', ''fc40'', ''6.8.0-48-generic''] [] []
        ([], [], None)) ''/img'' =
   Inr ([''6.11.6-200.fc40.x86_64''] @ ''fc40'' # [''6.8.0-48-generic''])"
  by code_simp+

lemma parse_fedora: "parseKernelVersion ''6.11.6-200.fc40.x86_64'' = Inr (TolerantVersion [6, 11, 6])"
  by (simp add: parseKernelVersion_def match_fedora New_examples)

lemma parse_ubuntu: "parseKernelVersion ''6.8.0-48-generic'' = Inr (TolerantVersion [6, 8, 0])"
  by (simp add: parseKernelVersion_def match_ubuntu New_examples)

lemma parse_fc40: "parseKernelVersion ''fc40'' = Inl (ParseError ''fc40'')"
  by (simp add: parseKernelVersion_def match_fc40 ParseError_def)

lemma scenario_no_versions:
  "GetInstalledKernelVersions
     (fake_host [''6.6.47.1-1.azl3''] [''6.6.47.1-1.azl3''] [] ([], [], None)) ''/img'' = Inr []"
  by code_simp

lemma scenario_uname_fc40:
  "GetBuildHostKernelVersion (fake_host [] [] [] (''fc40'' @ [CHR 0x0A], [], None)) =
     Inl (ParseError ''fc40'')"
  by code_simp

lemma scenario_execute:
  "shell_Execute (fake_host entries empty_dirs unreadable uname) program args = uname"
  by (simp add: fake_host_def)

section \<open>The claims\<close>

text \<open>
  C1, as the code has it: the first group of the pattern holds three segments, so
  \<^verbatim>\<open>5.15.153.1-2.cm2\<close> parses to \<open>[5,15,153]\<close> and
  \<^verbatim>\<open>6.6.47.1-1.azl3\<close> to \<open>[6,6,47]\<close>; \<^verbatim>\<open>6.11.6-200.fc40.x86_64\<close>
  parses to \<open>[6,11,6]\<close>, \<^verbatim>\<open>6.8.0-48-generic\<close> to \<open>[6,8,0]\<close>, and the
  empty string and \<^verbatim>\<open>fc40\<close> are parse errors.
\<close>

theorem parse_examples:
  "parseKernelVersion ''6.11.6-200.fc40.x86_64'' = Inr (TolerantVersion [6, 11, 6]) \<and>
   parseKernelVersion ''5.15.153.1-2.cm2'' = Inr (TolerantVersion [5, 15, 153]) \<and>
   parseKernelVersion ''6.6.47.1-1.azl3'' = Inr (TolerantVersion [6, 6, 47]) \<and>
   parseKernelVersion ''6.8.0-48-generic'' = Inr (TolerantVersion [6, 8, 0]) \<and>
   parseKernelVersion '''' = Inl (Errorf ''failed to parse kernel version ()'' None) \<and>
   parseKernelVersion ''fc40'' = Inl (Errorf ''failed to parse kernel version (fc40)'' None)"
  by (simp add: parseKernelVersion_def match_fedora match_azl2 match_azl3 match_ubuntu
        match_empty match_fc40 New_examples)

text \<open>
  C1 as the spec states it fails: the two Azure Linux strings do not parse to the four
  segments \<open>[5,15,153,1]\<close> and \<open>[6,6,47,1]\<close>.
\<close>

theorem parse_examples_counterexample:
  "parseKernelVersion ''5.15.153.1-2.cm2'' \<noteq> Inr (TolerantVersion [5, 15, 153, 1]) \<and>
   parseKernelVersion ''6.6.47.1-1.azl3'' \<noteq> Inr (TolerantVersion [6, 6, 47, 1])"
  by (simp add: parseKernelVersion_def match_azl2 match_azl3 New_examples)

text \<open>
  C2, as the code has it: parseKernelVersion succeeds exactly on the texts of three
  dot-separated runs of digits, optionally followed by a separator and a suffix of
  letters, digits, dots, dashes and underscores; on every other text it fails with the
  parse error that names the text.
\<close>

theorem parse_accepts_three_segments:
  "((\<exists>v. parseKernelVersion s = (Inr v :: 'e error + TolerantVersion)) \<longleftrightarrow> three_segment_text s) \<and>
   (parseKernelVersion s = (Inl (ParseError s) :: 'e error + TolerantVersion) \<longleftrightarrow>
      \<not> three_segment_text s)"
proof -
  have 1: "(\<exists>v. parseKernelVersion s = (Inr v :: 'e error + TolerantVersion)) \<longleftrightarrow>
      three_segment_text s"
    unfolding parseKernelVersion_Inr three_segment_text_def by blast
  have 2: "parseKernelVersion s = (Inl (ParseError s) :: 'e error + TolerantVersion) \<longleftrightarrow>
      \<not> (\<exists>v. parseKernelVersion s = (Inr v :: 'e error + TolerantVersion))"
    by (auto simp: parseKernelVersion_def ParseError_def split: option.splits)
  from 1 2 show ?thesis by simp
qed

theorem parse_accepts_three_segments_witness:
  "three_segment_text ''6.8.0-48-generic'' \<and> \<not> three_segment_text ''fc40''"
proof -
  have "parseKernelVersion ''6.8.0-48-generic'' = (Inr (TolerantVersion [6, 8, 0]) :: unit error + _)"
    by (simp add: parseKernelVersion_def match_ubuntu New_examples)
  moreover have "parseKernelVersion ''fc40'' = (Inl (ParseError ''fc40'') :: unit error + _)"
    by (simp add: parseKernelVersion_def match_fc40 ParseError_def)
  ultimately show ?thesis
    using parse_accepts_three_segments [of "''6.8.0-48-generic''", where 'e = unit]
      parse_accepts_three_segments [of "''fc40''", where 'e = unit]
    by blast
qed

text \<open>
  C2 as the spec states it fails: \<^verbatim>\<open>6.11\<close> is in the spec's grammar and starts
  with an integer segment, and the code rejects it.
\<close>

theorem parse_accepts_counterexample:
  "spec_accepts ''6.11'' \<and> starts_with_integer_segment ''6.11'' \<and>
   parseKernelVersion ''6.11'' = Inl (ParseError ''6.11'')"
  by (simp add: spec_accepts_two_segments starts_two_segments parseKernelVersion_def
        match_two_segments ParseError_def)

text \<open>
  C10: a version that parseKernelVersion returns holds the first three dot-separated
  numbers of the text and nothing else. A text with one or two numbers is a parse error;
  a fourth number belongs to the suffix, so two texts that differ only there parse to
  versions that compare equal.
\<close>

theorem parse_keeps_three_segments:
  "(parseKernelVersion s = (Inr v :: 'e error + TolerantVersion) \<longleftrightarrow>
      (\<exists>a b c suf. s = a @ ''.'' @ b @ ''.'' @ c @ suf \<and>
         numeric a \<and> numeric b \<and> numeric c \<and> trailing suf \<and>
         v = TolerantVersion [decimal a, decimal b, decimal c])) \<and>
   parseKernelVersion ''6'' = (Inl (ParseError ''6'') :: 'e error + TolerantVersion) \<and>
   parseKernelVersion ''6.11'' = (Inl (ParseError ''6.11'') :: 'e error + TolerantVersion) \<and>
   parseKernelVersion ''5.15.153.1-2.cm2'' =
     (Inr (TolerantVersion [5, 15, 153]) :: 'e error + TolerantVersion) \<and>
   (\<forall>a b. parseKernelVersion ''5.15.153.1-2.cm2'' = (Inr a :: 'e error + TolerantVersion) \<and>
          parseKernelVersion ''5.15.153.2-2.cm2'' = (Inr b :: 'e error + TolerantVersion) \<longrightarrow>
          Compare a b = 0)"
proof -
  have m: "FindStringSubmatch kernelVersionRegex 2 ''5.15.153.2-2.cm2'' =
     Some [''5.15.153.2-2.cm2'', ''5.15.153'', ''.2-2.cm2'']"
    by code_simp
  have "parseKernelVersion ''5.15.153.1-2.cm2'' =
     (Inr (TolerantVersion [5, 15, 153]) :: 'e error + TolerantVersion)"
    "parseKernelVersion ''5.15.153.2-2.cm2'' =
     (Inr (TolerantVersion [5, 15, 153]) :: 'e error + TolerantVersion)"
    by (simp_all add: parseKernelVersion_def match_azl2 m New_examples)
  moreover have "parseKernelVersion ''6'' = (Inl (ParseError ''6'') :: 'e error + TolerantVersion)"
    "parseKernelVersion ''6.11'' = (Inl (ParseError ''6.11'') :: 'e error + TolerantVersion)"
    by (simp_all add: parseKernelVersion_def match_one_segment match_two_segments ParseError_def)
  ultimately show ?thesis
    using parseKernelVersion_Inr [of s v, where 'a = 'e]
    by (simp add: Compare_refl)
qed

theorem parse_keeps_three_segments_witness:
  "\<exists>a b c suf. ''6.8.0-48-generic'' = a @ ''.'' @ b @ ''.'' @ c @ suf \<and>
      numeric a \<and> numeric b \<and> numeric c \<and> trailing suf \<and>
      TolerantVersion [6, 8, 0] = TolerantVersion [decimal a, decimal b, decimal c]"
proof -
  have "parseKernelVersion ''6.8.0-48-generic'' = (Inr (TolerantVersion [6, 8, 0]) :: unit error + _)"
    by (simp add: parseKernelVersion_def match_ubuntu New_examples)
  then show ?thesis
    using parse_keeps_three_segments [of "''6.8.0-48-generic''" "TolerantVersion [6, 8, 0]",
        where 'e = unit]
    by blast
qed

text \<open>
  C9: Compare walks the segments from the left, a missing segment counting as 0, and
  compares each pair as numbers: the first position where the segments differ decides.
  So \<open>[5,15]\<close> equals \<open>[5,15,0]\<close>, and the segment 10 is above the segment 9.
\<close>

theorem Compare_pairwise:
  "(Compare a b < 0 \<longleftrightarrow>
      (\<exists>i. segment_at (segments a) i < segment_at (segments b) i \<and>
           (\<forall>j<i. segment_at (segments a) j = segment_at (segments b) j))) \<and>
   (0 < Compare a b \<longleftrightarrow>
      (\<exists>i. segment_at (segments b) i < segment_at (segments a) i \<and>
           (\<forall>j<i. segment_at (segments a) j = segment_at (segments b) j))) \<and>
   (Compare a b = 0 \<longleftrightarrow> (\<forall>i. segment_at (segments a) i = segment_at (segments b) i)) \<and>
   Compare (TolerantVersion [5, 15]) (TolerantVersion [5, 15, 0]) = 0 \<and>
   0 < Compare (TolerantVersion [10]) (TolerantVersion [9]) \<and>
   Compare (TolerantVersion [9]) (TolerantVersion [10]) < 0"
proof -
  have "Compare (TolerantVersion [5, 15]) (TolerantVersion [5, 15, 0]) = 0"
    "0 < Compare (TolerantVersion [10]) (TolerantVersion [9])"
    "Compare (TolerantVersion [9]) (TolerantVersion [10]) < 0"
    by (simp_all add: Compare_def segment_order_def)
  then show ?thesis
    unfolding Compare_def
    using compare_segments_less [of "segments a" "segments b"]
      compare_segments_greater [of "segments a" "segments b"]
      compare_segments_equal [of "segments a" "segments b"]
    by blast
qed

theorem Compare_pairwise_witness:
  "\<exists>i. segment_at (segments (TolerantVersion [6, 6, 47])) i
          < segment_at (segments (TolerantVersion [6, 8, 0])) i \<and>
       (\<forall>j<i. segment_at (segments (TolerantVersion [6, 6, 47])) j
              = segment_at (segments (TolerantVersion [6, 8, 0])) j)"
proof -
  have "Compare (TolerantVersion [6, 6, 47]) (TolerantVersion [6, 8, 0]) < 0"
    by (simp add: Compare_def segment_order_def)
  then show ?thesis
    using Compare_pairwise [of "TolerantVersion [6, 6, 47]" "TolerantVersion [6, 8, 0]"]
    by blast
qed

text \<open>
  C3: on a non-empty list of parsed versions, GetOldestInstalledKernelVersion returns
  an element \<open>m\<close> of the list such that no element compares below \<open>m\<close>. It is the
  result of the scan that starts from the first element and replaces the candidate by a
  strictly lesser version only, so \<open>m\<close> is strictly below every element before it: among
  equal versions the earliest stays.
\<close>

theorem oldest_is_first_least:
  assumes "GetInstalledKernelVersions h rootfs = Inr vs" and "vs \<noteq> []"
  shows "\<exists>pre m post. vs = pre @ m # post \<and>
           GetOldestInstalledKernelVersion h rootfs = Inr m \<and>
           m = scanOldest (hd vs) vs \<and>
           (\<forall>x\<in>set vs. \<not> Compare x m < 0) \<and>
           (\<forall>x\<in>set pre. Compare m x < 0)"
proof -
  define m where "m = scanOldest (hd vs) vs"
  have hd: "vs ! 0 = hd vs" using assms(2) by (simp add: hd_conv_nth)
  have r: "GetOldestInstalledKernelVersion h rootfs = Inr m"
    using assms by (simp add: GetOldestInstalledKernelVersion_def m_def hd)
  from scanOldest_inv [of vs "hd vs"] have
    least: "\<forall>x\<in>set vs. \<not> Compare x m < 0" and
    place: "m = hd vs \<or> (\<exists>pre post. vs = pre @ m # post \<and> Compare m (hd vs) < 0 \<and>
       (\<forall>x\<in>set pre. Compare m x < 0))"
    unfolding m_def by blast+
  from place have "\<exists>pre post. vs = pre @ m # post \<and> (\<forall>x\<in>set pre. Compare m x < 0)"
  proof
    assume "m = hd vs"
    with assms(2) have "vs = [] @ m # tl vs \<and> (\<forall>x\<in>set []. Compare m x < 0)" by simp
    then show ?thesis by blast
  next
    assume "\<exists>pre post. vs = pre @ m # post \<and> Compare m (hd vs) < 0 \<and>
       (\<forall>x\<in>set pre. Compare m x < 0)"
    then show ?thesis by blast
  qed
  with r least show ?thesis unfolding m_def by blast
qed

theorem oldest_is_first_least_witness:
  "\<exists>pre m post. [TolerantVersion [6, 11, 6], TolerantVersion [6, 8, 0]] = pre @ m # post \<and>
      GetOldestInstalledKernelVersion
        (fake_host [''6.11.6-200.fc40.x86_64'', ''6.8.0-48-generic''] [] [] ([], [], None))
        ''/img'' = Inr m \<and>
      m = scanOldest (hd [TolerantVersion [6, 11, 6], TolerantVersion [6, 8, 0]])
            [TolerantVersion [6, 11, 6], TolerantVersion [6, 8, 0]] \<and>
      (\<forall>x\<in>set [TolerantVersion [6, 11, 6], TolerantVersion [6, 8, 0]]. \<not> Compare x m < 0) \<and>
      (\<forall>x\<in>set pre. Compare m x < 0)"
proof -
  have "[TolerantVersion [6, 11, 6], TolerantVersion [6, 8, 0]] \<noteq> []" by simp
  from oldest_is_first_least [OF scenario_versions this] show ?thesis .
qed

text \<open>
  C4: GetInstalledKernelStringVersions lists the entries of \<^verbatim>\<open>lib/modules\<close> under
  the root and keeps, in order, those whose directory is not empty. When every entry is
  empty the result is the empty list and no error. When the directory cannot be listed,
  or the emptiness of an entry cannot be read, it fails with the error that wraps the
  error of the file system.
\<close>

theorem scanner_lists_non_empty_dirs:
  assumes "parent = filepath_Join h rootfs ''/lib/modules''"
  shows
  "(os_ReadDir h parent = Inl err \<longrightarrow>
      GetInstalledKernelStringVersions h rootfs = Inl (IOError_enumerate parent err)) \<and>
   (os_ReadDir h parent = Inr ds \<and>
      list_all (\<lambda>d. \<exists>b. file_IsDirEmpty h (filepath_Join h parent d) = Inr b) ds \<longrightarrow>
      GetInstalledKernelStringVersions h rootfs =
        Inr (filter (\<lambda>d. file_IsDirEmpty h (filepath_Join h parent d) = Inr False) ds)) \<and>
   (os_ReadDir h parent = Inr ds \<and>
      list_all (\<lambda>d. file_IsDirEmpty h (filepath_Join h parent d) = Inr True) ds \<longrightarrow>
      GetInstalledKernelStringVersions h rootfs = Inr []) \<and>
   (os_ReadDir h parent = Inr (pre @ d # post) \<and>
      list_all (\<lambda>x. \<exists>b. file_IsDirEmpty h (filepath_Join h parent x) = Inr b) pre \<and>
      file_IsDirEmpty h (filepath_Join h parent d) = Inl err \<longrightarrow>
      GetInstalledKernelStringVersions h rootfs =
        Inl (IOError_emptiness (filepath_Join h parent d) err))"
proof (intro conjI impI)
  assume "os_ReadDir h parent = Inl err"
  then show "GetInstalledKernelStringVersions h rootfs = Inl (IOError_enumerate parent err)"
    by (simp add: GetInstalledKernelStringVersions_def assms IOError_enumerate_def)
next
  assume a: "os_ReadDir h parent = Inr ds \<and>
      list_all (\<lambda>d. \<exists>b. file_IsDirEmpty h (filepath_Join h parent d) = Inr b) ds"
  then have "GetInstalledKernelStringVersions h rootfs = filterKernelDirs h parent ds []"
    by (simp add: GetInstalledKernelStringVersions_def assms)
  with a show "GetInstalledKernelStringVersions h rootfs =
        Inr (filter (\<lambda>d. file_IsDirEmpty h (filepath_Join h parent d) = Inr False) ds)"
    by (simp add: filterKernelDirs_all)
next
  assume a: "os_ReadDir h parent = Inr ds \<and>
      list_all (\<lambda>d. file_IsDirEmpty h (filepath_Join h parent d) = Inr True) ds"
  then have "GetInstalledKernelStringVersions h rootfs = filterKernelDirs h parent ds []"
    by (simp add: GetInstalledKernelStringVersions_def assms)
  with a show "GetInstalledKernelStringVersions h rootfs = Inr []"
    by (simp add: filterKernelDirs_all all_empty_filter)
next
  assume a: "os_ReadDir h parent = Inr (pre @ d # post) \<and>
      list_all (\<lambda>x. \<exists>b. file_IsDirEmpty h (filepath_Join h parent x) = Inr b) pre \<and>
      file_IsDirEmpty h (filepath_Join h parent d) = Inl err"
  then have "GetInstalledKernelStringVersions h rootfs =
      filterKernelDirs h parent (pre @ d # post) []"
    by (simp add: GetInstalledKernelStringVersions_def assms)
  with a show "GetInstalledKernelStringVersions h rootfs =
        Inl (IOError_emptiness (filepath_Join h parent d) err)"
    by (simp add: filterKernelDirs_error)
qed

theorem scanner_lists_non_empty_dirs_witness:
  "GetInstalledKernelStringVersions
     (fake_host [''5.15.153.1-2.cm2'', ''6.11.6-200.fc40.x86_64'', ''6.6.47.1-1.azl3'']
        [''6.6.47.1-1.azl3''] [] ([], [], None)) ''/img'' =
     Inr [''5.15.153.1-2.cm2'', ''6.11.6-200.fc40.x86_64''] \<and>
   GetInstalledKernelStringVersions
     (fake_host [''6.6.47.1-1.azl3''] [''6.6.47.1-1.azl3''] [] ([], [], None)) ''/img'' = Inr [] \<and>
   GetInstalledKernelStringVersions (fake_host [] [] [] ([], [], None)) ''/other'' =
     Inl (IOError_enumerate ''/other/lib/modules'' ''no such file or directory'') \<and>
   GetInstalledKernelStringVersions
     (fake_host [''6.8.0-48-generic'', ''README''] [] [''README''] ([], [], None)) ''/img'' =
     Inl (IOError_emptiness ''/img/lib/modules/README'' ''not a directory'')"
proof (intro conjI)
  show "GetInstalledKernelStringVersions
     (fake_host [''5.15.153.1-2.cm2'', ''6.11.6-200.fc40.x86_64'', ''6.6.47.1-1.azl3'']
        [''6.6.47.1-1.azl3''] [] ([], [], None)) ''/img'' =
     Inr [''5.15.153.1-2.cm2'', ''6.11.6-200.fc40.x86_64'']"
    using scanner_lists_non_empty_dirs [OF scenario_join(1) [symmetric],
        of "[''5.15.153.1-2.cm2'', ''6.11.6-200.fc40.x86_64'', ''6.6.47.1-1.azl3'']"
           "[''6.6.47.1-1.azl3'']" "[]" "([], [], None)" _
           "[''5.15.153.1-2.cm2'', ''6.11.6-200.fc40.x86_64'', ''6.6.47.1-1.azl3'']"]
      scenario_mixed
    by simp
  show "GetInstalledKernelStringVersions
     (fake_host [''6.6.47.1-1.azl3''] [''6.6.47.1-1.azl3''] [] ([], [], None)) ''/img'' = Inr []"
    using scanner_lists_non_empty_dirs [OF scenario_join(1) [symmetric],
        of "[''6.6.47.1-1.azl3'']" "[''6.6.47.1-1.azl3'']" "[]" "([], [], None)" _
           "[''6.6.47.1-1.azl3'']"]
      scenario_all_empty
    by simp
  show "GetInstalledKernelStringVersions (fake_host [] [] [] ([], [], None)) ''/other'' =
     Inl (IOError_enumerate ''/other/lib/modules'' ''no such file or directory'')"
    using scanner_lists_non_empty_dirs [OF scenario_join(2) [symmetric],
        of "[]" "[]" "[]" "([], [], None)" "''no such file or directory''"]
      scenario_unlisted
    by simp
  show "GetInstalledKernelStringVersions
     (fake_host [''6.8.0-48-generic'', ''README''] [] [''README''] ([], [], None)) ''/img'' =
     Inl (IOError_emptiness ''/img/lib/modules/README'' ''not a directory'')"
    using scanner_lists_non_empty_dirs [OF scenario_join(1) [symmetric],
        of "[''6.8.0-48-generic'', ''README'']" "[]" "[''README'']" "([], [], None)"
           "''not a directory''" _ "[''6.8.0-48-generic'']" "''README''" "[]"]
      scenario_unreadable
    by simp
qed

text \<open>
  C5: checkForInstalledKernel fails with the error \<^verbatim>\<open>no installed kernel found\<close>
  exactly when the scan of the root returns no name; it succeeds on every non-empty
  result, whatever the names are; an error of the scan is returned as it is.
\<close>

theorem guard_checks_presence_only:
  "(checkForInstalledKernel h c = Some NoKernelInstalledError \<longleftrightarrow>
      GetInstalledKernelStringVersions h (RootDir c) = Inr []) \<and>
   (GetInstalledKernelStringVersions h (RootDir c) = Inr kernels \<and> kernels \<noteq> [] \<longrightarrow>
      checkForInstalledKernel h c = None) \<and>
   (GetInstalledKernelStringVersions h (RootDir c) = Inl err \<longrightarrow>
      checkForInstalledKernel h c = Some err)"
proof (intro conjI impI)
  show "checkForInstalledKernel h c = Some NoKernelInstalledError \<longleftrightarrow>
      GetInstalledKernelStringVersions h (RootDir c) = Inr []"
  proof (cases "GetInstalledKernelStringVersions h (RootDir c)")
    case (Inl e)
    then have "e \<noteq> NoKernelInstalledError"
      using scanner_Inl [of h "RootDir c" e] NoKernelInstalledError_not_wrapping by auto
    with Inl show ?thesis by (simp add: checkForInstalledKernel_def)
  next
    case (Inr ks)
    then show ?thesis
      by (cases ks) (simp_all add: checkForInstalledKernel_def NoKernelInstalledError_def)
  qed
next
  assume "GetInstalledKernelStringVersions h (RootDir c) = Inr kernels \<and> kernels \<noteq> []"
  then show "checkForInstalledKernel h c = None"
    by (cases kernels) (simp_all add: checkForInstalledKernel_def)
next
  assume "GetInstalledKernelStringVersions h (RootDir c) = Inl err"
  then show "checkForInstalledKernel h c = Some err"
    by (simp add: checkForInstalledKernel_def)
qed

theorem guard_checks_presence_only_witness:
  "checkForInstalledKernel (fake_host [''not-a-kernel''] [] [] ([], [], None))
     \<lparr>RootDir = ''/img''\<rparr> = None \<and>
   checkForInstalledKernel
     (fake_host [''6.6.47.1-1.azl3''] [''6.6.47.1-1.azl3''] [] ([], [], None))
     \<lparr>RootDir = ''/img''\<rparr> = Some NoKernelInstalledError \<and>
   checkForInstalledKernel (fake_host [] [] [] ([], [], None)) \<lparr>RootDir = ''/other''\<rparr> =
     Some (IOError_enumerate ''/other/lib/modules'' ''no such file or directory'')"
  using
    guard_checks_presence_only [of "fake_host [''not-a-kernel''] [] [] ([], [], None)"
      "\<lparr>RootDir = ''/img''\<rparr>" "[''not-a-kernel'']"]
    guard_checks_presence_only
      [of "fake_host [''6.6.47.1-1.azl3''] [''6.6.47.1-1.azl3''] [] ([], [], None)"
        "\<lparr>RootDir = ''/img''\<rparr>"]
    guard_checks_presence_only [of "fake_host [] [] [] ([], [], None)"
      "\<lparr>RootDir = ''/other''\<rparr>" _
      "IOError_enumerate ''/other/lib/modules'' ''no such file or directory''"]
    scenario_guard
  by simp

text \<open>
  C6: GetInstalledKernelVersions parses the scanned names in order. When all parse, the
  result is the list of their versions. Otherwise it fails with the parse error of the
  first name that does not parse, unchanged, and returns no list.
\<close>

theorem versions_or_first_parse_error:
  assumes "GetInstalledKernelStringVersions h rootfs = Inr strs"
  shows
  "(list_all2 (\<lambda>s v. parseKernelVersion s = (Inr v :: 'e error + TolerantVersion)) strs vs \<longrightarrow>
      GetInstalledKernelVersions h rootfs = (Inr vs :: 'e error + TolerantVersion list)) \<and>
   (strs = pre @ s # post \<and>
      list_all (\<lambda>x. \<exists>v. parseKernelVersion x = (Inr v :: 'e error + TolerantVersion)) pre \<and>
      (\<forall>v. parseKernelVersion s \<noteq> (Inr v :: 'e error + TolerantVersion)) \<longrightarrow>
      GetInstalledKernelVersions h rootfs = (Inl (ParseError s) :: 'e error + TolerantVersion list) \<and>
      parseKernelVersion s = (Inl (ParseError s) :: 'e error + TolerantVersion))"
proof -
  have all: "GetInstalledKernelVersions h rootfs = (Inr vs :: 'e error + TolerantVersion list)"
    if "list_all2 (\<lambda>s v. parseKernelVersion s = (Inr v :: 'e error + TolerantVersion)) strs vs"
    using parseVersions_all [OF that, of "[]"] assms
    by (simp add: GetInstalledKernelVersions_def)
  have first: "GetInstalledKernelVersions h rootfs =
        (Inl (ParseError s) :: 'e error + TolerantVersion list) \<and>
      parseKernelVersion s = (Inl (ParseError s) :: 'e error + TolerantVersion)"
    if a: "strs = pre @ s # post \<and>
      list_all (\<lambda>x. \<exists>v. parseKernelVersion x = (Inr v :: 'e error + TolerantVersion)) pre \<and>
      (\<forall>v. parseKernelVersion s \<noteq> (Inr v :: 'e error + TolerantVersion))"
  proof -
    from a have e: "parseKernelVersion s = (Inl (ParseError s) :: 'e error + TolerantVersion)"
      by (auto simp: parseKernelVersion_def ParseError_def split: option.splits)
    from a have "list_all (\<lambda>x. \<exists>v. parseKernelVersion x = (Inr v :: 'e error + TolerantVersion)) pre"
      by simp
    from parseVersions_error [OF this e, of post "[]"] a assms e
    show ?thesis by (simp add: GetInstalledKernelVersions_def)
  qed
  from all first show ?thesis by blast
qed

theorem versions_or_first_parse_error_witness:
  "GetInstalledKernelVersions
     (fake_host [''6.11.6-200.fc40.x86_64'', ''6.8.0-48-generic''] [] [] ([], [], None)) ''/img'' =
     Inr [TolerantVersion [6, 11, 6], TolerantVersion [6, 8, 0]] \<and>
   GetInstalledKernelVersions
     (fake_host [''6.11.6-200.fc40.x86_64'', ''fc40'', ''6.8.0-48-generic''] [] []
        ([], [], None)) ''/img'' = Inl (ParseError ''fc40'')"
proof (intro conjI)
  have "list_all2 (\<lambda>s v. parseKernelVersion s = (Inr v :: string error + TolerantVersion))
      [''6.11.6-200.fc40.x86_64'', ''6.8.0-48-generic'']
      [TolerantVersion [6, 11, 6], TolerantVersion [6, 8, 0]]"
    by (simp add: parse_fedora parse_ubuntu)
  then show "GetInstalledKernelVersions
     (fake_host [''6.11.6-200.fc40.x86_64'', ''6.8.0-48-generic''] [] [] ([], [], None)) ''/img'' =
     Inr [TolerantVersion [6, 11, 6], TolerantVersion [6, 8, 0]]"
    using versions_or_first_parse_error [OF scenario_parse_list(1)] by blast
next
  have "list_all (\<lambda>x. \<exists>v. parseKernelVersion x = (Inr v :: string error + TolerantVersion))
      [''6.11.6-200.fc40.x86_64'']"
    by (simp add: parse_fedora)
  moreover have "\<forall>v. parseKernelVersion ''fc40'' \<noteq> (Inr v :: string error + TolerantVersion)"
    by (simp add: parse_fc40)
  ultimately show "GetInstalledKernelVersions
     (fake_host [''6.11.6-200.fc40.x86_64'', ''fc40'', ''6.8.0-48-generic''] [] []
        ([], [], None)) ''/img'' = Inl (ParseError ''fc40'')"
    using versions_or_first_parse_error [OF scenario_parse_list(2),
        where pre = "[''6.11.6-200.fc40.x86_64'']" and s = "''fc40''"
          and post = "[''6.8.0-48-generic'']"]
    by blast
qed

text \<open>
  C7: when the list of parsed versions is empty, GetOldestInstalledKernelVersion fails
  with the error \<^verbatim>\<open>no installed kernels found in image\<close>. This error wraps no
  error of the file system: it is neither of the two errors of the scan, and no error
  that the scan returns.
\<close>

theorem oldest_of_empty_inventory:
  assumes "GetInstalledKernelVersions h rootfs = Inr []"
  shows "GetOldestInstalledKernelVersion h rootfs = Inl EmptyInventoryError \<and>
         \<not> wraps_external (EmptyInventoryError :: 'e error) \<and>
         (\<forall>p err. (EmptyInventoryError :: 'e error) \<noteq> IOError_enumerate p err \<and>
                  (EmptyInventoryError :: 'e error) \<noteq> IOError_emptiness p err) \<and>
         (\<forall>r e. GetInstalledKernelStringVersions h r = Inl e \<longrightarrow> e \<noteq> EmptyInventoryError)"
proof (intro conjI allI impI)
  show "GetOldestInstalledKernelVersion h rootfs = Inl EmptyInventoryError"
    using assms by (simp add: GetOldestInstalledKernelVersion_def EmptyInventoryError_def)
  show "\<not> wraps_external (EmptyInventoryError :: 'e error)"
    by (simp add: EmptyInventoryError_def)
  show "(EmptyInventoryError :: 'e error) \<noteq> IOError_enumerate p err" for p err
    by (simp add: EmptyInventoryError_def IOError_enumerate_def)
  show "(EmptyInventoryError :: 'e error) \<noteq> IOError_emptiness p err" for p err
    by (simp add: EmptyInventoryError_def IOError_emptiness_def)
  show "e \<noteq> EmptyInventoryError" if "GetInstalledKernelStringVersions h r = Inl e" for r e
    using scanner_Inl [OF that] by (auto simp: EmptyInventoryError_def)
qed

theorem oldest_of_empty_inventory_witness:
  "GetOldestInstalledKernelVersion
     (fake_host [''6.6.47.1-1.azl3''] [''6.6.47.1-1.azl3''] [] ([], [], None)) ''/img'' =
   Inl EmptyInventoryError"
  using oldest_of_empty_inventory [OF scenario_no_versions] by blast

text \<open>
  C8, as the code has it: GetBuildHostKernelVersion runs \<^verbatim>\<open>uname -r\<close>. When the
  call fails, the result is the host query error that wraps the error of the call. When
  it succeeds, the result is that of parseKernelVersion on the output without its
  surrounding white space: a version, or the parse error of the trimmed output, which is
  returned as it is and is not a host query error.
\<close>

theorem host_version_trims_and_parses:
  "(shell_Execute (h :: 'e host) ''uname'' [''-r''] = (out, errout, Some err) \<longrightarrow>
      GetBuildHostKernelVersion h = Inl (HostQueryError err) \<and>
      is_HostQueryError (HostQueryError err)) \<and>
   (shell_Execute h ''uname'' [''-r''] = (out, errout, None) \<longrightarrow>
      GetBuildHostKernelVersion h = parseKernelVersion (TrimSpace out)) \<and>
   (shell_Execute h ''uname'' [''-r''] = (out, errout, None) \<and>
      (\<forall>v. parseKernelVersion (TrimSpace out) \<noteq> (Inr v :: 'e error + TolerantVersion)) \<longrightarrow>
      GetBuildHostKernelVersion h = Inl (ParseError (TrimSpace out)) \<and>
      \<not> is_HostQueryError (ParseError (TrimSpace out) :: 'e error))"
proof -
  have 1: "GetBuildHostKernelVersion h = Inl (HostQueryError err) \<and>
      is_HostQueryError (HostQueryError err)"
    if "shell_Execute h ''uname'' [''-r''] = (out, errout, Some err)"
    using that by (simp add: GetBuildHostKernelVersion_def HostQueryError_def)
  have 2: "GetBuildHostKernelVersion h = parseKernelVersion (TrimSpace out)"
    if "shell_Execute h ''uname'' [''-r''] = (out, errout, None)"
    using that by (simp add: GetBuildHostKernelVersion_def)
  have 3: "GetBuildHostKernelVersion h = Inl (ParseError (TrimSpace out)) \<and>
      \<not> is_HostQueryError (ParseError (TrimSpace out) :: 'e error)"
    if a: "shell_Execute h ''uname'' [''-r''] = (out, errout, None) \<and>
      (\<forall>v. parseKernelVersion (TrimSpace out) \<noteq> (Inr v :: 'e error + TolerantVersion))"
  proof -
    from a have pe: "parseKernelVersion (TrimSpace out) =
        (Inl (ParseError (TrimSpace out)) :: 'e error + TolerantVersion)"
      by (auto simp: parseKernelVersion_def ParseError_def split: option.splits)
    from a have "shell_Execute h ''uname'' [''-r''] = (out, errout, None)" by simp
    from 2 [OF this] pe
    have "GetBuildHostKernelVersion h = Inl (ParseError (TrimSpace out))" by simp
    moreover have "\<not> is_HostQueryError (ParseError (TrimSpace out) :: 'e error)"
      by (simp add: ParseError_def)
    ultimately show ?thesis by blast
  qed
  from 1 2 3 show ?thesis by blast
qed

theorem host_version_trims_and_parses_witness:
  "GetBuildHostKernelVersion
     (fake_host [] [] [] ('' 6.8.0-48-generic'' @ [CHR 0x0A], [], None)) =
     Inr (TolerantVersion [6, 8, 0]) \<and>
   GetBuildHostKernelVersion
     (fake_host [] [] [] ([], [], Some ''executable file not found'')) =
     Inl (HostQueryError ''executable file not found'') \<and>
   GetBuildHostKernelVersion (fake_host [] [] [] (''fc40'' @ [CHR 0x0A], [], None)) =
     Inl (ParseError ''fc40'')"
proof (intro conjI)
  have "parseKernelVersion ''6.8.0-48-generic'' = (Inr (TolerantVersion [6, 8, 0]) :: string error + _)"
    by (rule parse_ubuntu)
  then show "GetBuildHostKernelVersion
     (fake_host [] [] [] ('' 6.8.0-48-generic'' @ [CHR 0x0A], [], None)) =
     Inr (TolerantVersion [6, 8, 0])"
    using host_version_trims_and_parses
      [of "fake_host [] [] [] ('' 6.8.0-48-generic'' @ [CHR 0x0A], [], None)"
        "'' 6.8.0-48-generic'' @ [CHR 0x0A]" "[]"]
      scenario_execute [of "[]" "[]" "[]" "('' 6.8.0-48-generic'' @ [CHR 0x0A], [], None)"]
    by (simp only: trim_uname)
  show "GetBuildHostKernelVersion
     (fake_host [] [] [] ([], [], Some ''executable file not found'')) =
     Inl (HostQueryError ''executable file not found'')"
    using host_version_trims_and_parses
      [of "fake_host [] [] [] ([], [], Some ''executable file not found'')"
        "[]" "[]" "''executable file not found''"]
      scenario_execute [of "[]" "[]" "[]" "([], [], Some ''executable file not found'')"]
    by simp
  have ex: "shell_Execute (fake_host [] [] [] (''fc40'' @ [CHR 0x0A], [], None)) ''uname'' [''-r''] =
      (''fc40'' @ [CHR 0x0A], [], None)"
    by (rule scenario_execute)
  have np: "\<forall>v. parseKernelVersion (TrimSpace (''fc40'' @ [CHR 0x0A])) \<noteq>
      (Inr v :: string error + TolerantVersion)"
    unfolding trim_fc40 by (simp add: parse_fc40)
  from host_version_trims_and_parses
      [of "fake_host [] [] [] (''fc40'' @ [CHR 0x0A], [], None)" "''fc40'' @ [CHR 0x0A]" "[]"]
    ex np
  have "GetBuildHostKernelVersion (fake_host [] [] [] (''fc40'' @ [CHR 0x0A], [], None)) =
      Inl (ParseError (TrimSpace (''fc40'' @ [CHR 0x0A])))"
    by blast
  then show "GetBuildHostKernelVersion (fake_host [] [] [] (''fc40'' @ [CHR 0x0A], [], None)) =
     Inl (ParseError ''fc40'')"
    by (simp only: trim_fc40)
qed

text \<open>
  C8 as the spec states it fails: when \<^verbatim>\<open>uname -r\<close> prints a text that does not
  parse, the error is the parse error, not a host query error.
\<close>

theorem host_version_counterexample:
  "GetBuildHostKernelVersion (fake_host [] [] [] (''fc40'' @ [CHR 0x0A], [], None)) =
     Inl (ParseError ''fc40'') \<and>
   \<not> is_HostQueryError (ParseError ''fc40'' :: string error)"
  using scenario_uname_fc40 by (simp add: ParseError_def)

end
